theory Spec2Isabelle
  imports Complex_Main "HOL-Library.Multiset"
begin

section \<open>Numbers\<close>

text \<open>
  The program computes with JavaScript numbers. A finite number is modelled by the real
  it denotes, so arithmetic on finite numbers is exact here: rounding error of the
  double format, overflow and the sign of zero are left out. The three non-finite
  numbers are values of their own where a function of the program tests for them.
  The one place where rounding and overflow decide whether a function returns at all,
  and what it returns, is the computation of the axis scale; there the sum of two doubles
  is a parameter and the overflow of a bound is a branch.
\<close>

datatype jsnum = Fin real | PosInf | NegInf | NaN

fun isFinite :: "jsnum \<Rightarrow> bool" where
  "isFinite (Fin v) = True"
| "isFinite PosInf = False"
| "isFinite NegInf = False"
| "isFinite NaN = False"

fun isNaN :: "jsnum \<Rightarrow> bool" where
  "isNaN NaN = True"
| "isNaN (Fin v) = False"
| "isNaN PosInf = False"
| "isNaN NegInf = False"

text \<open>\<open>a > 0\<close> on numbers: false for NaN.\<close>

fun js_gt_zero :: "jsnum \<Rightarrow> bool" where
  "js_gt_zero (Fin v) = (v > 0)"
| "js_gt_zero PosInf = True"
| "js_gt_zero NegInf = False"
| "js_gt_zero NaN = False"

text \<open>
  \<open>parseFloat(v.toFixed(f))\<close> for a finite \<open>v\<close>. \<open>toFixed\<close> takes the sign off,
  picks the integer \<open>n\<close> with \<open>n / 10^f\<close> closest to the magnitude (the larger one of
  two), and prints the magnitude itself from \<open>10^21\<close> on; \<open>parseFloat\<close> reads the
  digits back.
\<close>

definition toFixed :: "nat \<Rightarrow> real \<Rightarrow> real" where
  "toFixed f v =
     (if \<bar>v\<bar> \<ge> 10 ^ 21 then v
      else (if v < 0 then - 1 else 1) * (of_int \<lfloor>\<bar>v\<bar> * 10 ^ f + 1 / 2\<rfloor> / 10 ^ f))"

section \<open>Tracked points and the calibration state\<close>

record tracked_point =
  pt_id :: nat
  pt_x :: real
  pt_y :: real
  pt_time :: real

text \<open>
  The component's state as far as the analysis reads it. \<open>origin\<close> and
  \<open>pixelsPerMeter\<close> are \<open>null\<close> until set.
\<close>

record engine =
  points :: "tracked_point list"
  origin :: "(real \<times> real) option"
  originAngle :: real
  pixelsPerMeter :: "real option"
  zeroTime :: bool
  uncertaintyPx :: real

definition getRotatedCoords :: "engine \<Rightarrow> real \<Rightarrow> real \<Rightarrow> real \<times> real" where
  "getRotatedCoords e rawX rawY =
     (case origin e of
        None \<Rightarrow> (rawX, rawY)
      | Some (ox, oy) \<Rightarrow>
          (let dx = rawX - ox; dy = rawY - oy;
               c = cos (originAngle e); s = sin (originAngle e)
           in (dx * c + dy * s, - (- dx * s + dy * c))))"

text \<open>\<open>pixelsPerMeter ? val / pixelsPerMeter : val\<close>: \<open>null\<close> and \<open>0\<close> are falsy.\<close>

definition formatVal :: "engine \<Rightarrow> real \<Rightarrow> real" where
  "formatVal e val =
     (case pixelsPerMeter e of
        None \<Rightarrow> val
      | Some k \<Rightarrow> if k \<noteq> 0 then val / k else val)"

text \<open>The two steps together: a pixel point in physical units.\<close>

definition toPhysical :: "engine \<Rightarrow> real \<Rightarrow> real \<Rightarrow> real \<times> real" where
  "toPhysical e rawX rawY =
     (let (rx, ry) = getRotatedCoords e rawX rawY in (formatVal e rx, formatVal e ry))"

section \<open>Position and velocity series\<close>

record pos_sample =
  ps_time :: real
  ps_x :: real
  ps_y :: real
  ps_error :: real

text \<open>A velocity row carries \<open>x\<close>, \<open>y\<close> and \<open>error\<close> too, always \<open>null\<close>.\<close>

record vel_sample =
  vs_time :: real
  vs_vx :: real
  vs_vy :: real
  vs_x :: "real option"
  vs_y :: "real option"
  vs_error :: "real option"

text \<open>\<open>Math.min(...xs)\<close> of a non-empty list of finite numbers.\<close>

fun math_min :: "real list \<Rightarrow> real" where
  "math_min [] = 0"
| "math_min (v # vs) = fold min vs v"

definition startTime :: "engine \<Rightarrow> real" where
  "startTime e = (if length (points e) > 0 then math_min (map pt_time (points e)) else 0)"

definition uncertaintyMeters :: "engine \<Rightarrow> real" where
  "uncertaintyMeters e =
     (case pixelsPerMeter e of
        None \<Rightarrow> 0
      | Some k \<Rightarrow> if k \<noteq> 0 then uncertaintyPx e / k else 0)"

text \<open>
  \<open>points.sort((a, b) => a.time - b.time)\<close>: the array is sorted by time, stably, and in
  place. The sorted array is both the value of the call and the new content of
  \<open>points\<close>.
\<close>

definition sortedPoints :: "engine \<Rightarrow> tracked_point list" where
  "sortedPoints e = sort_key pt_time (points e)"

definition adjustedTime :: "engine \<Rightarrow> tracked_point \<Rightarrow> real" where
  "adjustedTime e p = (if zeroTime e then pt_time p - startTime e else pt_time p)"

definition posData :: "engine \<Rightarrow> pos_sample list" where
  "posData e =
     map (\<lambda>p.
        (let (rx, ry) = getRotatedCoords e (pt_x p) (pt_y p)
         in \<lparr> ps_time = toFixed 3 (adjustedTime e p),
              ps_x = toFixed 3 (formatVal e rx),
              ps_y = toFixed 3 (formatVal e ry),
              ps_error = toFixed 3 (uncertaintyMeters e) \<rparr>))
       (sortedPoints e)"

text \<open>
  One round of the velocity loop, for index \<open>i\<close> of the sorted array \<open>sp\<close> with last
  index \<open>N\<close>: the pair \<open>(vx, vy)\<close>, or \<open>None\<close> where both stay \<open>null\<close>.
\<close>

definition velocityAt :: "engine \<Rightarrow> tracked_point list \<Rightarrow> nat \<Rightarrow> nat \<Rightarrow> (real \<times> real) option" where
  "velocityAt e sp N i =
     (if i = 0 then
        (let p0 = sp ! 0; p1 = sp ! 1; p2 = sp ! 2;
             (x0, y0) = getRotatedCoords e (pt_x p0) (pt_y p0);
             (x1, y1) = getRotatedCoords e (pt_x p1) (pt_y p1);
             (x2, y2) = getRotatedCoords e (pt_x p2) (pt_y p2);
             dt = pt_time p1 - pt_time p0
         in if dt > 0.0001 then
              Some ((- 3 * formatVal e x0 + 4 * formatVal e x1 - formatVal e x2) / (2 * dt),
                    (- 3 * formatVal e y0 + 4 * formatVal e y1 - formatVal e y2) / (2 * dt))
            else None)
      else if i = N then
        (let pN = sp ! N; pN1 = sp ! (N - 1); pN2 = sp ! (N - 2);
             (xN, yN) = getRotatedCoords e (pt_x pN) (pt_y pN);
             (xN1, yN1) = getRotatedCoords e (pt_x pN1) (pt_y pN1);
             (xN2, yN2) = getRotatedCoords e (pt_x pN2) (pt_y pN2);
             dt = pt_time pN - pt_time pN1
         in if dt > 0.0001 then
              Some ((3 * formatVal e xN - 4 * formatVal e xN1 + formatVal e xN2) / (2 * dt),
                    (3 * formatVal e yN - 4 * formatVal e yN1 + formatVal e yN2) / (2 * dt))
            else None)
      else
        (let pPrev = sp ! (i - 1); pNext = sp ! (i + 1);
             dt = pt_time pNext - pt_time pPrev
         in if dt > 0.0001 then
              (let (prvX, prvY) = getRotatedCoords e (pt_x pPrev) (pt_y pPrev);
                   (nxtX, nxtY) = getRotatedCoords e (pt_x pNext) (pt_y pNext)
               in Some ((formatVal e nxtX - formatVal e prvX) / dt,
                        (formatVal e nxtY - formatVal e prvY) / dt))
            else None))"

text \<open>The body of the loop: the row pushed at index \<open>i\<close>, if any.\<close>

definition velRow :: "engine \<Rightarrow> tracked_point list \<Rightarrow> nat \<Rightarrow> nat \<Rightarrow> vel_sample option" where
  "velRow e sp N i =
     (case velocityAt e sp N i of
        None \<Rightarrow> None
      | Some (vx, vy) \<Rightarrow>
          Some \<lparr> vs_time = toFixed 3 (adjustedTime e (sp ! i)),
                 vs_vx = toFixed 3 vx, vs_vy = toFixed 3 vy,
                 vs_x = None, vs_y = None, vs_error = None \<rparr>)"

text \<open>
  \<open>for (let i = 0; i <= N; i++) { if (N < 2) break; ... }\<close> with
  \<open>N = sortedPoints.length - 1\<close>: nothing is pushed for fewer than three points.
\<close>

definition velData :: "engine \<Rightarrow> vel_sample list" where
  "velData e =
     (let sp = sortedPoints e in
      if int (length sp) - 1 < 2 then []
      else List.map_filter (velRow e sp (length sp - 1)) [0 ..< length sp])"

text \<open>
  The memoised computation: both series, and the state it leaves, whose \<open>points\<close> the
  sort has reordered.
\<close>

definition computeSeries :: "engine \<Rightarrow> engine \<times> pos_sample list \<times> vel_sample list" where
  "computeSeries e = (e\<lparr>points := sortedPoints e\<rparr>, posData e, velData e)"

section \<open>Submitting a calibration\<close>

datatype js_error = TypeError

text \<open>
  The state the handler reads and sets. \<open>alerts\<close> collects the messages shown by
  \<open>alert\<close>. \<open>cs_pixelsPerMeter\<close> is the state variable \<open>pixelsPerMeter\<close>, with the
  number as the handler computes it.
\<close>

record calib_state =
  calibrationPoints :: "(real \<times> real) list"
  cs_pixelsPerMeter :: "jsnum option"
  isCalibrating :: bool
  showInputModal :: bool
  isScaleVisible :: bool
  alerts :: "string list"

text \<open>\<open>d / m\<close> for a finite \<open>d\<close>.\<close>

fun js_div :: "real \<Rightarrow> jsnum \<Rightarrow> jsnum" where
  "js_div d (Fin m) =
     (if m \<noteq> 0 then Fin (d / m) else if d = 0 then NaN else if d > 0 then PosInf else NegInf)"
| "js_div d PosInf = Fin 0"
| "js_div d NegInf = Fin 0"
| "js_div d NaN = NaN"

text \<open>
  \<open>submitCalibration\<close>, given \<open>meters = parseFloat(realDistanceInput)\<close>. Reading \<open>.x\<close>
  of a calibration point that is not there throws.
\<close>

definition submitCalibration :: "jsnum \<Rightarrow> calib_state \<Rightarrow> js_error + calib_state" where
  "submitCalibration meters st =
     (if \<not> isNaN meters \<and> js_gt_zero meters then
        (case calibrationPoints st of
           (p1x, p1y) # (p2x, p2y) # rest \<Rightarrow>
             (let distPx = sqrt ((p2x - p1x) ^ 2 + (p2y - p1y) ^ 2)
              in Inr (st\<lparr> cs_pixelsPerMeter := Some (js_div distPx meters),
                          isCalibrating := False,
                          showInputModal := False,
                          isScaleVisible := True \<rparr>))
         | _ \<Rightarrow> Inl TypeError)
      else Inr (st\<lparr> alerts := alerts st @ [''Please enter a valid number''] \<rparr>))"

section \<open>Nice axis scales\<close>

record axis_scale =
  scale_min :: jsnum
  scale_max :: jsnum
  scale_ticks :: "real list"
  scale_step :: jsnum

text \<open>
  \<open>for (let t = niceMin; t <= limit; t += niceStep) ticks.push(parseFloat(t.toFixed(4)))\<close>.
  Here the rounding of doubles decides what the function does, not only the last digit
  of a result: when \<open>niceStep\<close> is below half the spacing of the doubles at \<open>t\<close>, the sum
  \<open>t + niceStep\<close> is \<open>t\<close> again and the loop never ends. So the addition of doubles is
  a parameter \<open>dadd\<close> of the loop, and of the two functions that run it; with
  \<open>dadd = (+)\<close> the loop adds exactly. Nothing in the loop bounds the number of rounds,
  so its result is optional: \<open>None\<close> stands for a loop that does not end.
\<close>

partial_function (option) ticksLoop ::
  "(real \<Rightarrow> real \<Rightarrow> real) \<Rightarrow> real \<Rightarrow> real \<Rightarrow> real \<Rightarrow> real list \<Rightarrow> real list option" where
  "ticksLoop dadd t limit niceStep ticks =
     (if t \<le> limit then ticksLoop dadd (dadd t niceStep) limit niceStep (ticks @ [toFixed 4 t])
      else Some ticks)"

text \<open>The chain of comparisons that snaps the mantissa of the step.\<close>

definition snapMagStep :: "real \<Rightarrow> real" where
  "snapMagStep magStep =
     (if magStep < 1.5 then 1
      else if magStep < 2.25 then 2
      else if magStep < 3.5 then 2.5
      else if magStep < 7.5 then 5
      else 10)"

definition defaultScale :: axis_scale where
  "defaultScale = \<lparr> scale_min = Fin 0, scale_max = Fin 10, scale_ticks = [0, 10], scale_step = Fin 1 \<rparr>"

text \<open>
  A sum, difference or product of doubles whose exact value rounds beyond the largest
  double, \<open>2^1024 - 2^971\<close>, is \<open>Infinity\<close> or \<open>-Infinity\<close>.
\<close>

definition overflows :: "real \<Rightarrow> bool" where
  "overflows v = (\<bar>v\<bar> \<ge> 2 ^ 1024 - 2 ^ 970)"

text \<open>
  The body after the guard, for finite \<open>minValue \<noteq> maxValue\<close>.
  \<^item> A step that is not positive makes the logarithm \<open>-Infinity\<close> or \<open>NaN\<close>; the bounds
    are then \<open>NaN\<close> and the loop does not run.
  \<^item> When the range or a padded bound overflows, \<open>rawStep\<close> and \<open>niceStep\<close> are
    \<open>Infinity\<close>, both bounds are \<open>NaN\<close> (\<open>0 * Infinity\<close> or \<open>Infinity / Infinity\<close>) and
    the loop does not run.
  \<^item> When a nice bound or the limit of the loop overflows, \<open>t <= limit\<close> stays true
    and the loop does not end.
\<close>

definition niceScaleFinite ::
  "(real \<Rightarrow> real \<Rightarrow> real) \<Rightarrow> real \<Rightarrow> real \<Rightarrow> bool \<Rightarrow> axis_scale option" where
  "niceScaleFinite dadd minValue maxValue lockZero =
     (let range = maxValue - minValue;
          padding = (if range = 0 then 1 else range * 0.05);
          paddedMin = (if lockZero \<and> minValue \<ge> 0 then 0 else minValue - padding);
          paddedMax = maxValue + padding;
          paddedRange = paddedMax - paddedMin;
          targetTickCount = 6;
          rawStep = paddedRange / targetTickCount
      in if rawStep > 0 then
           (if overflows range \<or> overflows paddedMin \<or> overflows paddedMax \<or> overflows paddedRange
            then Some \<lparr> scale_min = NaN, scale_max = NaN, scale_ticks = [], scale_step = PosInf \<rparr>
            else
              (let mag = \<lfloor>log 10 rawStep\<rfloor>;
                   magPow = 10 powr (of_int mag);
                   magStep = snapMagStep (rawStep / magPow);
                   niceStep = magStep * magPow;
                   niceMin = of_int \<lfloor>paddedMin / niceStep\<rfloor> * niceStep;
                   niceMax = of_int \<lceil>paddedMax / niceStep\<rceil> * niceStep;
                   limit = niceMax + niceStep / 100
               in if overflows niceMin \<or> overflows niceMax \<or> overflows limit then None
                  else
                    (case ticksLoop dadd niceMin limit niceStep [] of
                       None \<Rightarrow> None
                     | Some ticks \<Rightarrow>
                         Some \<lparr> scale_min = Fin niceMin, scale_max = Fin niceMax,
                                scale_ticks = ticks, scale_step = Fin niceStep \<rparr>)))
         else if rawStep = 0 then
           Some \<lparr> scale_min = NaN, scale_max = NaN, scale_ticks = [], scale_step = Fin 0 \<rparr>
         else
           Some \<lparr> scale_min = NaN, scale_max = NaN, scale_ticks = [], scale_step = NaN \<rparr>)"

text \<open>\<open>a === b\<close> on numbers.\<close>

fun js_strict_eq :: "jsnum \<Rightarrow> jsnum \<Rightarrow> bool" where
  "js_strict_eq (Fin a) (Fin b) = (a = b)"
| "js_strict_eq PosInf PosInf = True"
| "js_strict_eq NegInf NegInf = True"
| "js_strict_eq a b = False"

definition calculateNiceScale ::
  "(real \<Rightarrow> real \<Rightarrow> real) \<Rightarrow> jsnum \<Rightarrow> jsnum \<Rightarrow> bool \<Rightarrow> axis_scale option" where
  "calculateNiceScale dadd minValue maxValue lockZero =
     (if \<not> isFinite minValue \<or> \<not> isFinite maxValue \<or> js_strict_eq minValue maxValue
      then Some defaultScale
      else (case (minValue, maxValue) of
              (Fin mn, Fin mx) \<Rightarrow> niceScaleFinite dadd mn mx lockZero
            | _ \<Rightarrow> Some defaultScale))"

section \<open>Curve fitting\<close>


















section \<open>The velocity formulas in the words of the specification\<close>

text \<open>
  The calibrated coordinates of a point, and the three-point scheme as the specification
  writes it: the forward formula at the first sample, the backward formula at the last
  one, the central difference in between, each over its own \<open>dt\<close>. The velocity loop
  above is compared with these.
\<close>

definition calibratedX :: "engine \<Rightarrow> tracked_point \<Rightarrow> real" where
  "calibratedX e p = fst (toPhysical e (pt_x p) (pt_y p))"

definition calibratedY :: "engine \<Rightarrow> tracked_point \<Rightarrow> real" where
  "calibratedY e p = snd (toPhysical e (pt_x p) (pt_y p))"

definition spec_dt :: "tracked_point list \<Rightarrow> nat \<Rightarrow> real" where
  "spec_dt ps i =
     (let N = length ps - 1 in
      if i = 0 then pt_time (ps ! 1) - pt_time (ps ! 0)
      else if i = N then pt_time (ps ! N) - pt_time (ps ! (N - 1))
      else pt_time (ps ! (i + 1)) - pt_time (ps ! (i - 1)))"

definition spec_velocity :: "(tracked_point \<Rightarrow> real) \<Rightarrow> tracked_point list \<Rightarrow> nat \<Rightarrow> real" where
  "spec_velocity f ps i =
     (let N = length ps - 1 in
      if i = 0 then (- 3 * f (ps ! 0) + 4 * f (ps ! 1) - f (ps ! 2)) / (2 * spec_dt ps i)
      else if i = N then (3 * f (ps ! N) - 4 * f (ps ! (N - 1)) + f (ps ! (N - 2))) / (2 * spec_dt ps i)
      else (f (ps ! (i + 1)) - f (ps ! (i - 1))) / spec_dt ps i)"

definition spec_time :: "engine \<Rightarrow> tracked_point \<Rightarrow> real" where
  "spec_time e p = (if zeroTime e then pt_time p - Min (pt_time ` set (points e)) else pt_time p)"

definition spec_row :: "engine \<Rightarrow> tracked_point list \<Rightarrow> nat \<Rightarrow> vel_sample" where
  "spec_row e ps i =
     \<lparr> vs_time = toFixed 3 (spec_time e (ps ! i)),
       vs_vx = toFixed 3 (spec_velocity (calibratedX e) ps i),
       vs_vy = toFixed 3 (spec_velocity (calibratedY e) ps i),
       vs_x = None, vs_y = None, vs_error = None \<rparr>"

text \<open>
  What the boundary formulas give on the line \<open>x(t) = v0 + a t\<close>, when the gap next to the
  boundary sample is \<open>h\<close> and the gap after it is \<open>h'\<close>.
\<close>

definition boundary_estimate :: "real \<Rightarrow> real \<Rightarrow> real \<Rightarrow> real" where
  "boundary_estimate a h h' = a * (3 * h - h') / (2 * h)"

section \<open>Example inputs\<close>

definition thirdsExample :: engine where
  "thirdsExample =
     \<lparr> points = [\<lparr>pt_id = 1, pt_x = 0, pt_y = 0, pt_time = 1\<rparr>,
                 \<lparr>pt_id = 2, pt_x = 1, pt_y = 3, pt_time = 4\<rparr>,
                 \<lparr>pt_id = 3, pt_x = 2, pt_y = 6, pt_time = 7\<rparr>],
       origin = None, originAngle = 0, pixelsPerMeter = None, zeroTime = True, uncertaintyPx = 0 \<rparr>"

definition unevenExample :: engine where
  "unevenExample =
     \<lparr> points = [\<lparr>pt_id = 1, pt_x = 0, pt_y = 0, pt_time = 0\<rparr>,
                 \<lparr>pt_id = 2, pt_x = 1, pt_y = 0, pt_time = 1\<rparr>,
                 \<lparr>pt_id = 3, pt_x = 3, pt_y = 0, pt_time = 3\<rparr>],
       origin = None, originAngle = 0, pixelsPerMeter = None, zeroTime = False, uncertaintyPx = 0 \<rparr>"

definition scenario :: "nat \<Rightarrow> nat \<Rightarrow> nat \<Rightarrow> real \<Rightarrow> real \<Rightarrow> real \<Rightarrow> real \<Rightarrow> bool \<Rightarrow> real \<Rightarrow> engine" where
  "scenario i0 i1 i2 y0 y1 y2 ang zt u =
     \<lparr> points = [\<lparr>pt_id = i0, pt_x = 0, pt_y = y0, pt_time = 0\<rparr>,
                 \<lparr>pt_id = i1, pt_x = 10, pt_y = y1, pt_time = 0.5\<rparr>,
                 \<lparr>pt_id = i2, pt_x = 20, pt_y = y2, pt_time = 1\<rparr>],
       origin = None, originAngle = ang, pixelsPerMeter = Some 10, zeroTime = zt, uncertaintyPx = u \<rparr>"

definition calibExample :: engine where
  "calibExample = \<lparr> points = [], origin = Some (1, 1), originAngle = 0, pixelsPerMeter = Some 2,
                     zeroTime = False, uncertaintyPx = 0 \<rparr>"

definition calibStart :: calib_state where
  "calibStart = \<lparr> calibrationPoints = [(0, 0), (3, 4)], cs_pixelsPerMeter = None,
                   isCalibrating = True, showInputModal = True, isScaleVisible = False,
                   alerts = [] \<rparr>"

definition unsortedExample :: engine where
  "unsortedExample =
     \<lparr> points = [\<lparr>pt_id = 1, pt_x = 5, pt_y = 0, pt_time = 1\<rparr>,
                 \<lparr>pt_id = 2, pt_x = 0, pt_y = 0, pt_time = 0\<rparr>],
       origin = None, originAngle = 0, pixelsPerMeter = None, zeroTime = False, uncertaintyPx = 0 \<rparr>"

definition tinyRangeScale :: axis_scale where
  "tinyRangeScale =
     \<lparr> scale_min = Fin (- 0.00002), scale_max = Fin 0.00012,
       scale_ticks = [0, 0, 0, 0, 0.0001, 0.0001, 0.0001, 0.0001],
       scale_step = Fin 0.00002 \<rparr>"



section \<open>The velocity loop and the three-point formulas\<close>

lemma fold_min_Min: "fold min vs (v::real) = Min (set (v # vs))"
proof (induction vs arbitrary: v)
  case Nil
  then show ?case by simp
next
  case (Cons a vs)
  have "fold min (a # vs) v = Min (set (min a v # vs))" using Cons.IH by simp
  also have "\<dots> = Min (set (v # a # vs))"
    by (cases "set vs = {}") (simp_all add: min.commute min.assoc min.left_commute)
  finally show ?case .
qed

lemma startTime_Min: "points e \<noteq> [] \<Longrightarrow> startTime e = Min (pt_time ` set (points e))"
  by (cases "points e") (simp_all add: startTime_def fold_min_Min del: fold_simps)

lemma adjustedTime_spec: "points e \<noteq> [] \<Longrightarrow> adjustedTime e p = spec_time e p"
  by (simp add: adjustedTime_def spec_time_def startTime_Min)

lemma velocityAt_spec:
  assumes "3 \<le> length sp" "i < length sp"
  shows "velocityAt e sp (length sp - 1) i =
           (if spec_dt sp i > 0.0001
            then Some (spec_velocity (calibratedX e) sp i, spec_velocity (calibratedY e) sp i)
            else None)"
  using assms
  by (auto simp: velocityAt_def spec_dt_def spec_velocity_def calibratedX_def calibratedY_def
        toPhysical_def Let_def split: prod.splits)

lemma velRow_spec:
  assumes "3 \<le> length sp" "i < length sp" "points e \<noteq> []"
  shows "velRow e sp (length sp - 1) i =
           (if spec_dt sp i > 0.0001 then Some (spec_row e sp i) else None)"
  unfolding velRow_def velocityAt_spec [OF assms(1,2)]
  using assms(3) by (simp add: spec_row_def adjustedTime_spec)

lemma map_filter_if:
  "(\<And>x. x \<in> set xs \<Longrightarrow> f x = (if P x then Some (g x) else None)) \<Longrightarrow>
   List.map_filter f xs = map g (filter P xs)"
  by (induction xs) (simp_all add: List.map_filter_simps)

lemma velData_spec:
  assumes "3 \<le> length (points e)"
  shows "velData e =
           map (spec_row e (sortedPoints e))
             (filter (\<lambda>i. spec_dt (sortedPoints e) i > 0.0001) [0 ..< length (points e)])"
proof -
  have len: "length (sortedPoints e) = length (points e)" by (simp add: sortedPoints_def)
  have ne: "points e \<noteq> []" using assms by auto
  have "velData e = List.map_filter (velRow e (sortedPoints e) (length (sortedPoints e) - 1))
                      [0 ..< length (sortedPoints e)]"
    using assms by (simp add: velData_def Let_def len)
  also have "\<dots> = map (spec_row e (sortedPoints e))
             (filter (\<lambda>i. spec_dt (sortedPoints e) i > 0.0001) [0 ..< length (sortedPoints e)])"
  proof (rule map_filter_if)
    fix i assume "i \<in> set [0 ..< length (sortedPoints e)]"
    then have i: "i < length (sortedPoints e)" by simp
    have l3: "3 \<le> length (sortedPoints e)" using assms len by simp
    show "velRow e (sortedPoints e) (length (sortedPoints e) - 1) i =
        (if spec_dt (sortedPoints e) i > 0.0001 then Some (spec_row e (sortedPoints e) i) else None)"
      by (rule velRow_spec [OF l3 i ne])
  qed
  finally show ?thesis by (simp add: len)
qed

lemma velData_short: "length (points e) < 3 \<Longrightarrow> velData e = []"
  by (simp add: velData_def sortedPoints_def Let_def)

lemma sortedPoints_sorted: "sorted (map pt_time (points e)) \<Longrightarrow> sortedPoints e = points e"
  by (simp add: sortedPoints_def sort_key_id_if_sorted)

lemma boundary_estimate_even: "h \<noteq> 0 \<Longrightarrow> boundary_estimate a h h = a"
  by (simp add: boundary_estimate_def)

lemma velData_all_rows:
  assumes "sorted (map pt_time (points e))" and "3 \<le> length (points e)"
    and "\<forall>i < length (points e). spec_dt (points e) i > 0.0001"
  shows "velData e = map (spec_row e (points e)) [0 ..< length (points e)]"
proof -
  have "filter (\<lambda>i. spec_dt (points e) i > 0.0001) [0 ..< length (points e)] = [0 ..< length (points e)]"
    using assms(3) by (simp add: filter_id_conv)
  then show ?thesis
    using velData_spec [OF assms(2)] sortedPoints_sorted [OF assms(1)] by simp
qed

lemma spec_velocity_linear_interior:
  assumes "0 < i" "i < length ps - 1" "spec_dt ps i > 0.0001"
    and "\<forall>j < length ps. f (ps ! j) = v0 + a * pt_time (ps ! j)"
  shows "spec_velocity f ps i = a"
proof -
  have lt: "i + 1 < length ps" "i - 1 < length ps" using assms(2) by linarith+
  have f: "f (ps ! (i + 1)) = v0 + a * pt_time (ps ! (i + 1))"
    "f (ps ! (i - 1)) = v0 + a * pt_time (ps ! (i - 1))"
    using assms(4) lt by blast+
  have sv: "spec_velocity f ps i = (f (ps ! (i + 1)) - f (ps ! (i - 1))) / spec_dt ps i"
    using assms(1,2) by (simp add: spec_velocity_def)
  have dt: "spec_dt ps i = pt_time (ps ! (i + 1)) - pt_time (ps ! (i - 1))"
    using assms(1,2) by (simp add: spec_dt_def)
  have "f (ps ! (i + 1)) - f (ps ! (i - 1)) = a * spec_dt ps i"
    unfolding f dt by (simp add: algebra_simps)
  moreover have "spec_dt ps i \<noteq> 0" using assms(3) by auto
  ultimately show ?thesis unfolding sv by simp
qed

lemma spec_velocity_linear_first:
  assumes "3 \<le> length ps" "spec_dt ps 0 > 0.0001"
    and "\<forall>j < length ps. f (ps ! j) = v0 + a * pt_time (ps ! j)"
  shows "spec_velocity f ps 0 =
           boundary_estimate a (pt_time (ps ! 1) - pt_time (ps ! 0)) (pt_time (ps ! 2) - pt_time (ps ! 1))"
proof -
  have lt: "0 < length ps" "1 < length ps" "2 < length ps" using assms(1) by linarith+
  have f: "f (ps ! 0) = v0 + a * pt_time (ps ! 0)" "f (ps ! 1) = v0 + a * pt_time (ps ! 1)"
    "f (ps ! 2) = v0 + a * pt_time (ps ! 2)" using assms(3) lt by blast+
  have dt: "spec_dt ps 0 = pt_time (ps ! 1) - pt_time (ps ! 0)" by (simp add: spec_dt_def)
  have sv: "spec_velocity f ps 0 = (- 3 * f (ps ! 0) + 4 * f (ps ! 1) - f (ps ! 2)) / (2 * spec_dt ps 0)"
    by (simp add: spec_velocity_def)
  have "- 3 * f (ps ! 0) + 4 * f (ps ! 1) - f (ps ! 2)
        = a * (3 * (pt_time (ps ! 1) - pt_time (ps ! 0)) - (pt_time (ps ! 2) - pt_time (ps ! 1)))"
    unfolding f by (simp add: algebra_simps)
  then show ?thesis
    unfolding sv dt boundary_estimate_def by (simp only:)
qed

lemma spec_velocity_linear_last:
  assumes "3 \<le> length ps" "spec_dt ps (length ps - 1) > 0.0001"
    and "\<forall>j < length ps. f (ps ! j) = v0 + a * pt_time (ps ! j)"
  shows "spec_velocity f ps (length ps - 1) =
           boundary_estimate a (pt_time (ps ! (length ps - 1)) - pt_time (ps ! (length ps - 2)))
             (pt_time (ps ! (length ps - 2)) - pt_time (ps ! (length ps - 3)))"
proof -
  have lt: "length ps - 1 < length ps" "length ps - 2 < length ps" "length ps - 3 < length ps"
    using assms(1) by linarith+
  have ix: "length ps - 1 \<noteq> 0" "length ps - 1 - 1 = length ps - 2" "length ps - 1 - 2 = length ps - 3"
    using assms(1) by linarith+
  have f: "f (ps ! (length ps - 1)) = v0 + a * pt_time (ps ! (length ps - 1))"
    "f (ps ! (length ps - 2)) = v0 + a * pt_time (ps ! (length ps - 2))"
    "f (ps ! (length ps - 3)) = v0 + a * pt_time (ps ! (length ps - 3))"
    using assms(3) lt by blast+
  have dt: "spec_dt ps (length ps - 1) = pt_time (ps ! (length ps - 1)) - pt_time (ps ! (length ps - 2))"
    unfolding spec_dt_def Let_def ix(2) using ix(1) by simp
  have sv: "spec_velocity f ps (length ps - 1) =
      (3 * f (ps ! (length ps - 1)) - 4 * f (ps ! (length ps - 2)) + f (ps ! (length ps - 3)))
        / (2 * spec_dt ps (length ps - 1))"
    unfolding spec_velocity_def Let_def ix(2,3) using ix(1) by simp
  have "3 * f (ps ! (length ps - 1)) - 4 * f (ps ! (length ps - 2)) + f (ps ! (length ps - 3))
        = a * (3 * (pt_time (ps ! (length ps - 1)) - pt_time (ps ! (length ps - 2)))
               - (pt_time (ps ! (length ps - 2)) - pt_time (ps ! (length ps - 3))))"
    unfolding f by (simp add: algebra_simps)
  then show ?thesis
    unfolding sv dt boundary_estimate_def by (simp only:)
qed

lemma upt3: "[0 ..< 3] = [0, 1, 2]"
  by (simp add: upt_rec)

lemma thirds_Min: "Min (pt_time ` set (points thirdsExample)) = 1"
  by (simp add: thirdsExample_def)

lemma uneven_linear:
  "map (calibratedX unevenExample) (points unevenExample) =
     map (\<lambda>p. 0 + 1 * pt_time p) (points unevenExample)"
  by (simp add: unevenExample_def calibratedX_def toPhysical_def getRotatedCoords_def formatVal_def)


section \<open>Rounding keeps the order\<close>

lemma toFixed_round_le:
  fixes a :: real assumes "0 \<le> a" "a < 10 ^ 21"
  shows "0 \<le> of_int \<lfloor>a * 10 ^ f + 1 / 2\<rfloor> / (10::real) ^ f"
    and "of_int \<lfloor>a * 10 ^ f + 1 / 2\<rfloor> / (10::real) ^ f \<le> 10 ^ 21"
proof -
  have "0 \<le> a * 10 ^ f + 1 / 2" using assms by simp
  then have "0 \<le> \<lfloor>a * 10 ^ f + 1 / 2\<rfloor>" by simp
  then show "0 \<le> of_int \<lfloor>a * 10 ^ f + 1 / 2\<rfloor> / (10::real) ^ f" by simp
  have "a * 10 ^ f + 1 / 2 < of_int (10 ^ 21 * 10 ^ f) + 1"
    using assms by (simp add: mult_strict_right_mono add_strict_mono)
  then have "\<lfloor>a * 10 ^ f + 1 / 2\<rfloor> < 10 ^ 21 * 10 ^ f + 1"
    by (simp only: floor_less_iff of_int_add of_int_1)
  then have "\<lfloor>a * 10 ^ f + 1 / 2\<rfloor> \<le> 10 ^ 21 * 10 ^ f" by simp
  then have "real_of_int \<lfloor>a * 10 ^ f + 1 / 2\<rfloor> \<le> real_of_int (10 ^ 21 * 10 ^ f)"
    by (simp only: of_int_le_iff)
  then show "of_int \<lfloor>a * 10 ^ f + 1 / 2\<rfloor> / (10::real) ^ f \<le> 10 ^ 21"
    by (simp add: divide_le_eq)
qed

lemma toFixed_round_mono:
  fixes a b :: real assumes "a \<le> b"
  shows "of_int \<lfloor>a * 10 ^ f + 1 / 2\<rfloor> / (10::real) ^ f \<le> of_int \<lfloor>b * 10 ^ f + 1 / 2\<rfloor> / 10 ^ f"
proof -
  have "a * 10 ^ f + 1 / 2 \<le> b * 10 ^ f + 1 / 2" using assms by (simp add: mult_right_mono)
  then have "\<lfloor>a * 10 ^ f + 1 / 2\<rfloor> \<le> \<lfloor>b * 10 ^ f + 1 / 2\<rfloor>" by (rule floor_mono)
  then show ?thesis by (simp add: divide_right_mono)
qed

lemma toFixed_mono:
  assumes "u \<le> v" shows "toFixed f u \<le> toFixed f v"
proof -
  define ru where "ru = real_of_int \<lfloor>\<bar>u\<bar> * 10 ^ f + 1 / 2\<rfloor> / (10::real) ^ f"
  define rv where "rv = real_of_int \<lfloor>\<bar>v\<bar> * 10 ^ f + 1 / 2\<rfloor> / (10::real) ^ f"
  have fu: "toFixed f u = (if \<bar>u\<bar> \<ge> 10 ^ 21 then u else (if u < 0 then - 1 else 1) * ru)"
    by (simp only: toFixed_def ru_def)
  have fv: "toFixed f v = (if \<bar>v\<bar> \<ge> 10 ^ 21 then v else (if v < 0 then - 1 else 1) * rv)"
    by (simp only: toFixed_def rv_def)
  have bu: "\<bar>u\<bar> < 10 ^ 21 \<Longrightarrow> 0 \<le> ru \<and> ru \<le> 10 ^ 21"
    unfolding ru_def using toFixed_round_le [of "\<bar>u\<bar>" f] by simp
  have bv: "\<bar>v\<bar> < 10 ^ 21 \<Longrightarrow> 0 \<le> rv \<and> rv \<le> 10 ^ 21"
    unfolding rv_def using toFixed_round_le [of "\<bar>v\<bar>" f] by simp
  have m1: "\<bar>u\<bar> \<le> \<bar>v\<bar> \<Longrightarrow> ru \<le> rv"
    unfolding ru_def rv_def by (rule toFixed_round_mono)
  have m2: "\<bar>v\<bar> \<le> \<bar>u\<bar> \<Longrightarrow> rv \<le> ru"
    unfolding ru_def rv_def by (rule toFixed_round_mono)
  consider (bb) "\<bar>u\<bar> \<ge> 10 ^ 21" "\<bar>v\<bar> \<ge> 10 ^ 21"
    | (bs) "\<bar>u\<bar> \<ge> 10 ^ 21" "\<bar>v\<bar> < 10 ^ 21"
    | (sb) "\<bar>u\<bar> < 10 ^ 21" "\<bar>v\<bar> \<ge> 10 ^ 21"
    | (ss) "\<bar>u\<bar> < 10 ^ 21" "\<bar>v\<bar> < 10 ^ 21" by linarith
  then show ?thesis
  proof cases
    case bb
    then show ?thesis using assms fu fv by simp
  next
    case bs
    then have "u \<le> - (10 ^ 21)" using assms by linarith
    moreover have "- (10 ^ 21) \<le> toFixed f v" using bs bv fv by (simp split: if_splits)
    moreover have "toFixed f u = u" using bs fu by simp
    ultimately show ?thesis by linarith
  next
    case sb
    then have "10 ^ 21 \<le> v" using assms by linarith
    moreover have "toFixed f u \<le> 10 ^ 21" using sb bu fu by (simp split: if_splits)
    moreover have "toFixed f v = v" using sb fv by simp
    ultimately show ?thesis by linarith
  next
    case ss
    have pu: "0 \<le> ru" and pv: "0 \<le> rv" using bu bv ss by simp_all
    show ?thesis
    proof (cases "u < 0")
      case True
      show ?thesis
      proof (cases "v < 0")
        case True
        then have "\<bar>v\<bar> \<le> \<bar>u\<bar>" using assms by linarith
        then have "rv \<le> ru" by (rule m2)
        then show ?thesis using ss True \<open>u < 0\<close> fu fv by simp
      next
        case False
        then show ?thesis using ss True pu pv fu fv by simp
      qed
    next
      case False
      then have "\<not> v < 0" using assms by linarith
      have "\<bar>u\<bar> \<le> \<bar>v\<bar>" using assms False by linarith
      then have "ru \<le> rv" by (rule m1)
      then show ?thesis using ss False \<open>\<not> v < 0\<close> fu fv by simp
    qed
  qed
qed

lemma adjustedTime_mono: "pt_time p \<le> pt_time q \<Longrightarrow> adjustedTime e p \<le> adjustedTime e q"
  by (simp add: adjustedTime_def)

lemma sorted_times_sortedPoints: "sorted (map pt_time (sortedPoints e))"
  by (simp add: sortedPoints_def)

lemma sorted_shown_times:
  assumes "sorted (map pt_time sp)"
  shows "sorted_wrt (\<lambda>i j. toFixed 3 (adjustedTime e (sp ! i)) \<le> toFixed 3 (adjustedTime e (sp ! j)))
           (filter P [0 ..< length sp])"
proof -
  have "sorted_wrt (<) (filter P [0 ..< length sp])" by (simp add: sorted_wrt_filter)
  then show ?thesis
  proof (rule sorted_wrt_mono_rel [rotated])
    fix i j assume "i \<in> set (filter P [0 ..< length sp])" "j \<in> set (filter P [0 ..< length sp])" "i < j"
    then have "i \<le> j" "j < length sp" by simp_all
    then have "pt_time (sp ! i) \<le> pt_time (sp ! j)"
      using assms sorted_nth_mono [of "map pt_time sp" i j] by simp
    then show "toFixed 3 (adjustedTime e (sp ! i)) \<le> toFixed 3 (adjustedTime e (sp ! j))"
      by (intro toFixed_mono adjustedTime_mono)
  qed
qed

lemma posData_times: "map ps_time (posData e) = map (\<lambda>p. toFixed 3 (adjustedTime e p)) (sortedPoints e)"
  by (simp add: posData_def Let_def split: prod.splits)

lemma sorted_posData: "sorted (map ps_time (posData e))"
proof -
  have "sorted_wrt (\<lambda>p q. pt_time p \<le> pt_time q) (sortedPoints e)"
    using sorted_times_sortedPoints [of e] by (simp add: sorted_map)
  then have "sorted_wrt (\<lambda>p q. toFixed 3 (adjustedTime e p) \<le> toFixed 3 (adjustedTime e q)) (sortedPoints e)"
    by (rule sorted_wrt_mono_rel [rotated]) (intro toFixed_mono adjustedTime_mono)
  then show ?thesis by (simp add: posData_times sorted_map)
qed

lemma sorted_velData: "sorted (map vs_time (velData e))"
proof (cases "3 \<le> length (points e)")
  case True
  have len: "length (sortedPoints e) = length (points e)" by (simp add: sortedPoints_def)
  have ne: "points e \<noteq> []" using True by auto
  have "map vs_time (velData e) =
          map (\<lambda>i. toFixed 3 (adjustedTime e (sortedPoints e ! i)))
            (filter (\<lambda>i. spec_dt (sortedPoints e) i > 0.0001) [0 ..< length (sortedPoints e)])"
    by (simp add: velData_spec [OF True] spec_row_def adjustedTime_spec [OF ne] len comp_def)
  then show ?thesis
    using sorted_shown_times [OF sorted_times_sortedPoints, of e e "\<lambda>i. spec_dt (sortedPoints e) i > 0.0001"]
    by (simp add: sorted_map)
next
  case False
  then show ?thesis by (simp add: velData_short)
qed


section \<open>The velocity estimator (C1)\<close>

text \<open>
  Claim C1, as the code has it: for at least three points stored in ascending time
  order, the velocity series has one row for every index whose \<open>dt\<close> exceeds
  \<open>0.0001\<close>, in index order, and that row holds the sample's own (zero-shifted) time
  and the values of the forward, backward or central formula on the calibrated x and
  y coordinates, each rounded to three decimals.
\<close>

theorem velocity_three_point_formulas:
  assumes "sorted (map pt_time (points e))" and "3 \<le> length (points e)"
  shows "velData e =
           map (spec_row e (points e))
             (filter (\<lambda>i. spec_dt (points e) i > 0.0001) [0 ..< length (points e)])"
  using velData_spec [OF assms(2)] sortedPoints_sorted [OF assms(1)] by simp

text \<open>The theorem at three points with times 1, 4, 7 and zero-shifted display.\<close>

theorem velocity_three_point_formulas_witness:
  "sorted (map pt_time (points thirdsExample)) \<and> 3 \<le> length (points thirdsExample) \<and>
   velData thirdsExample =
     [\<lparr>vs_time = 0, vs_vx = 0.333, vs_vy = 1, vs_x = None, vs_y = None, vs_error = None\<rparr>,
      \<lparr>vs_time = 3, vs_vx = 0.333, vs_vy = 1, vs_x = None, vs_y = None, vs_error = None\<rparr>,
      \<lparr>vs_time = 6, vs_vx = 0.333, vs_vy = 1, vs_x = None, vs_y = None, vs_error = None\<rparr>]"
proof -
  have s: "sorted (map pt_time (points thirdsExample))" by (simp add: thirdsExample_def)
  have l: "3 \<le> length (points thirdsExample)" by (simp add: thirdsExample_def)
  have len: "length (points thirdsExample) = 3" by (simp add: thirdsExample_def)
  have dt: "filter (\<lambda>i. spec_dt (points thirdsExample) i > 0.0001) [0, 1, 2] = [0, 1, 2]"
    by (simp add: spec_dt_def thirdsExample_def)
  have r0: "spec_row thirdsExample (points thirdsExample) 0 =
      \<lparr>vs_time = 0, vs_vx = 0.333, vs_vy = 1, vs_x = None, vs_y = None, vs_error = None\<rparr>"
    unfolding spec_row_def spec_time_def thirds_Min
    by (simp add: spec_velocity_def spec_dt_def calibratedX_def calibratedY_def toPhysical_def
        getRotatedCoords_def formatVal_def thirdsExample_def toFixed_def)
  have r1: "spec_row thirdsExample (points thirdsExample) 1 =
      \<lparr>vs_time = 3, vs_vx = 0.333, vs_vy = 1, vs_x = None, vs_y = None, vs_error = None\<rparr>"
    unfolding spec_row_def spec_time_def thirds_Min
    by (simp add: spec_velocity_def spec_dt_def calibratedX_def calibratedY_def toPhysical_def
        getRotatedCoords_def formatVal_def thirdsExample_def toFixed_def)
  have r2: "spec_row thirdsExample (points thirdsExample) 2 =
      \<lparr>vs_time = 6, vs_vx = 0.333, vs_vy = 1, vs_x = None, vs_y = None, vs_error = None\<rparr>"
    unfolding spec_row_def spec_time_def thirds_Min
    by (simp add: spec_velocity_def spec_dt_def calibratedX_def calibratedY_def toPhysical_def
        getRotatedCoords_def formatVal_def thirdsExample_def toFixed_def)
  show ?thesis
    using velocity_three_point_formulas [OF s l] s l
    by (simp only: len upt3 dt list.map r0 r1 r2 simp_thms)
qed

text \<open>
  C1 as stated fails: the emitted \<open>vx\<close> is the rounded value, not the value of the
  formula. At the first of these points the formula gives \<open>1/3\<close> and the row holds
  \<open>0.333\<close>.
\<close>

theorem velocity_unrounded_counterexample:
  "vs_vx (velData thirdsExample ! 0) \<noteq> spec_velocity (calibratedX thirdsExample) (points thirdsExample) 0"
proof -
  have sp: "sortedPoints thirdsExample = points thirdsExample"
    by (simp add: sortedPoints_def thirdsExample_def)
  have "vs_vx (velData thirdsExample ! 0) = toFixed 3 (1 / 3)"
    by (simp add: velData_def sp Let_def)
      (simp add: thirdsExample_def List.map_filter_def upt_rec velRow_def velocityAt_def
        getRotatedCoords_def formatVal_def)
  moreover have "spec_velocity (calibratedX thirdsExample) (points thirdsExample) 0 = 1 / 3"
    by (simp add: spec_velocity_def spec_dt_def calibratedX_def toPhysical_def
        getRotatedCoords_def formatVal_def thirdsExample_def)
  ultimately show ?thesis by (simp add: toFixed_def)
qed

section \<open>The end-to-end scenario (C2)\<close>

text \<open>
  Claim C2: the points \<open>(x=0, t=0)\<close>, \<open>(x=10, t=0.5)\<close>, \<open>(x=20, t=1)\<close> with
  \<open>pixelsPerMeter = 10\<close> and no origin give positions with x-values \<open>[0, 1, 2]\<close> and
  velocities whose \<open>vx\<close> are all 2, whatever the other fields and settings are.
\<close>

theorem end_to_end_scenario:
  "map ps_x (posData (scenario i0 i1 i2 y0 y1 y2 ang zt u)) = [0, 1, 2] \<and>
   map vs_vx (velData (scenario i0 i1 i2 y0 y1 y2 ang zt u)) = [2, 2, 2]"
proof -
  let ?e = "scenario i0 i1 i2 y0 y1 y2 ang zt u"
  have sp: "sortedPoints ?e = points ?e"
    by (simp add: sortedPoints_def scenario_def)
  have "map ps_x (posData ?e) = [toFixed 3 0, toFixed 3 1, toFixed 3 2]"
    by (simp add: posData_def sp) (simp add: scenario_def getRotatedCoords_def formatVal_def)
  moreover have "map vs_vx (velData ?e) = [toFixed 3 2, toFixed 3 2, toFixed 3 2]"
    by (simp add: velData_def sp Let_def)
      (simp add: scenario_def List.map_filter_def upt_rec velRow_def velocityAt_def
        getRotatedCoords_def formatVal_def)
  ultimately show ?thesis by (simp add: toFixed_def)
qed

section \<open>Linear motion (C4)\<close>

text \<open>
  Claim C4, as the code has it: for at least three points in ascending time order whose
  calibrated x is \<open>v0 + a t\<close> and whose \<open>dt\<close> all exceed \<open>0.0001\<close>, every interior
  row holds \<open>a\<close> rounded to three decimals; the first and the last row hold the rounded
  boundary value \<open>a (3 h - h') / (2 h)\<close> for the two nearest gaps \<open>h\<close> and \<open>h'\<close>, which
  is \<open>a\<close> when the two gaps are equal (lemma \<open>boundary_estimate_even\<close>).
\<close>

theorem linear_motion_velocity:
  assumes "sorted (map pt_time (points e))" and "3 \<le> length (points e)"
    and "\<forall>i < length (points e). calibratedX e (points e ! i) = v0 + a * pt_time (points e ! i)"
    and "\<forall>i < length (points e). spec_dt (points e) i > 0.0001"
  shows "length (velData e) = length (points e) \<and>
         (\<forall>i. 0 < i \<and> i < length (points e) - 1 \<longrightarrow> vs_vx (velData e ! i) = toFixed 3 a) \<and>
         vs_vx (velData e ! 0) =
           toFixed 3 (boundary_estimate a (pt_time (points e ! 1) - pt_time (points e ! 0))
                        (pt_time (points e ! 2) - pt_time (points e ! 1))) \<and>
         vs_vx (velData e ! (length (points e) - 1)) =
           toFixed 3 (boundary_estimate a
                        (pt_time (points e ! (length (points e) - 1)) - pt_time (points e ! (length (points e) - 2)))
                        (pt_time (points e ! (length (points e) - 2)) - pt_time (points e ! (length (points e) - 3))))"
proof -
  let ?ps = "points e"
  have vd: "velData e = map (spec_row e ?ps) [0 ..< length ?ps]"
    using assms(1,2,4) by (rule velData_all_rows)
  have row: "vs_vx (velData e ! i) = toFixed 3 (spec_velocity (calibratedX e) ?ps i)"
    if "i < length ?ps" for i
    using that by (simp add: vd spec_row_def)
  have "vs_vx (velData e ! i) = toFixed 3 a" if "0 < i \<and> i < length ?ps - 1" for i
  proof -
    have "i < length ?ps" using that by linarith
    then have "spec_dt ?ps i > 0.0001" using assms(4) by blast
    then have "spec_velocity (calibratedX e) ?ps i = a"
      using that assms(3) by (intro spec_velocity_linear_interior) auto
    then show ?thesis using row [OF \<open>i < length ?ps\<close>] by simp
  qed
  moreover have "vs_vx (velData e ! 0) =
      toFixed 3 (boundary_estimate a (pt_time (?ps ! 1) - pt_time (?ps ! 0)) (pt_time (?ps ! 2) - pt_time (?ps ! 1)))"
  proof -
    have "0 < length ?ps" using assms(2) by auto
    moreover from this have "spec_dt ?ps 0 > 0.0001" using assms(4) by blast
    ultimately show ?thesis
      using row [of 0] spec_velocity_linear_first [OF assms(2) _ assms(3)] by simp
  qed
  moreover have "vs_vx (velData e ! (length ?ps - 1)) =
      toFixed 3 (boundary_estimate a
                   (pt_time (?ps ! (length ?ps - 1)) - pt_time (?ps ! (length ?ps - 2)))
                   (pt_time (?ps ! (length ?ps - 2)) - pt_time (?ps ! (length ?ps - 3))))"
  proof -
    have l: "length ?ps - 1 < length ?ps" using assms(2) by simp
    then have "spec_dt ?ps (length ?ps - 1) > 0.0001" using assms(4) by blast
    then show ?thesis
      using row [OF l] spec_velocity_linear_last [OF assms(2) _ assms(3)] by simp
  qed
  moreover have "length (velData e) = length ?ps" by (simp add: vd)
  ultimately show ?thesis by blast
qed

text \<open>The theorem on \<open>x(t) = t\<close> sampled at times 0, 1, 3.\<close>

theorem linear_motion_velocity_witness:
  "sorted (map pt_time (points unevenExample)) \<and> 3 \<le> length (points unevenExample) \<and>
   map (calibratedX unevenExample) (points unevenExample) =
     map (\<lambda>p. 0 + 1 * pt_time p) (points unevenExample) \<and>
   length (velData unevenExample) = 3 \<and>
   vs_vx (velData unevenExample ! 1) = 1 \<and>
   vs_vx (velData unevenExample ! 0) = 1 / 2 \<and>
   vs_vx (velData unevenExample ! 2) = 5 / 4"
proof -
  have s: "sorted (map pt_time (points unevenExample))" by (simp add: unevenExample_def)
  have l: "3 \<le> length (points unevenExample)" by (simp add: unevenExample_def)
  have len: "length (points unevenExample) = 3" by (simp add: unevenExample_def)
  have lin: "\<forall>i < length (points unevenExample).
      calibratedX unevenExample (points unevenExample ! i) = 0 + 1 * pt_time (points unevenExample ! i)"
  proof (intro allI impI)
    fix i assume "i < length (points unevenExample)"
    then show "calibratedX unevenExample (points unevenExample ! i) = 0 + 1 * pt_time (points unevenExample ! i)"
      using uneven_linear by (metis (no_types, lifting) length_map nth_map)
  qed
  have dts: "\<forall>i < length (points unevenExample). spec_dt (points unevenExample) i > 0.0001"
  proof (intro allI impI)
    fix i assume "i < length (points unevenExample)"
    then have "i = 0 \<or> i = 1 \<or> i = 2" unfolding len by linarith
    then show "spec_dt (points unevenExample) i > 0.0001"
      by (auto simp: spec_dt_def unevenExample_def)
  qed
  have t: "pt_time (points unevenExample ! 0) = 0" "pt_time (points unevenExample ! 1) = 1"
    "pt_time (points unevenExample ! 2) = 3"
    by (simp_all add: unevenExample_def)
  have r: "toFixed 3 1 = 1" "toFixed 3 (boundary_estimate 1 1 2) = 1 / 2"
    "toFixed 3 (boundary_estimate 1 2 1) = 5 / 4"
    by (simp_all add: toFixed_def boundary_estimate_def)
  have n: "(3::nat) - 1 = 2" "(3::nat) - 2 = 1" "(3::nat) - 3 = 0" by simp_all
  have i1: "0 < (1::nat) \<and> (1::nat) < 2" by simp
  note main = linear_motion_velocity [OF s l lin dts, unfolded len n t]
  have "length (velData unevenExample) = 3" using main by blast
  moreover have "vs_vx (velData unevenExample ! 1) = 1" using main i1 r(1) by metis
  moreover have "vs_vx (velData unevenExample ! 0) = 1 / 2" using main r(2) by simp
  moreover have "vs_vx (velData unevenExample ! 2) = 5 / 4" using main r(3) by simp
  ultimately show ?thesis using s l uneven_linear by blast
qed


text \<open>
  C4 as stated fails at the first sample of that input: times 0, 1, 3 are strictly
  increasing, the motion is \<open>x(t) = t\<close>, and the first \<open>vx\<close> is \<open>0.5\<close>, not \<open>1\<close>.
\<close>

theorem linear_motion_first_sample_counterexample:
  "sorted_wrt (<) (map pt_time (points unevenExample)) \<and>
   map (calibratedX unevenExample) (points unevenExample) =
     map (\<lambda>p. 0 + 1 * pt_time p) (points unevenExample) \<and>
   \<not> \<bar>vs_vx (velData unevenExample ! 0) - 1\<bar> \<le> 1 / 10 ^ 9"
proof -
  have sp: "sortedPoints unevenExample = points unevenExample"
    by (simp add: sortedPoints_def unevenExample_def)
  have "vs_vx (velData unevenExample ! 0) = toFixed 3 (1 / 2)"
    by (simp add: velData_def sp Let_def)
      (simp add: unevenExample_def List.map_filter_def upt_rec velRow_def velocityAt_def
        getRotatedCoords_def formatVal_def)
  then have "vs_vx (velData unevenExample ! 0) = 1 / 2" by (simp add: toFixed_def)
  moreover have "sorted_wrt (<) (map pt_time (points unevenExample))"
    by (simp add: unevenExample_def)
  ultimately show ?thesis using uneven_linear by simp
qed

section \<open>Time order of the series (C10)\<close>

text \<open>
  Claim C10: for every point list and every setting of calibration, rotation and
  zero time, the times of the position series are non-decreasing, and so are the times
  of the velocity series.
\<close>

theorem series_in_time_order:
  "sorted (map ps_time (posData e)) \<and> sorted (map vs_time (velData e))"
  using sorted_posData sorted_velData by blast

section \<open>The calibration transform (C5)\<close>

text \<open>
  Claim C5, as the code has it: for a positive \<open>k\<close>, the transform with
  \<open>pixelsPerMeter = k\<close> and no origin divides both components by \<open>k\<close>; with origin
  \<open>o\<close> and rotation 0 the x component is \<open>(p.x - o.x) / k\<close> and the y component is
  \<open>-(p.y - o.y) / k\<close>: the vertical axis is flipped.
\<close>

theorem toPhysical_scale_and_origin:
  "0 < k \<Longrightarrow>
     toPhysical (e\<lparr>origin := None, pixelsPerMeter := Some k\<rparr>) px py = (px / k, py / k) \<and>
     toPhysical (e\<lparr>origin := Some (ox, oy), originAngle := 0, pixelsPerMeter := Some k\<rparr>) px py
       = ((px - ox) / k, - (py - oy) / k)"
  by (simp add: toPhysical_def getRotatedCoords_def formatVal_def)

text \<open>The theorem at \<open>k = 2\<close>, \<open>o = (1, 1)\<close>, \<open>p = (3, 5)\<close>.\<close>

theorem toPhysical_scale_and_origin_witness:
  "(0::real) < 2 \<and> toPhysical (calibExample\<lparr>origin := None\<rparr>) 3 5 = (3 / 2, 5 / 2) \<and>
     toPhysical calibExample 3 5 = (1, - 2)"
  using toPhysical_scale_and_origin [of 2 calibExample 3 5 1 1]
  by (simp add: calibExample_def)

text \<open>
  C5 as stated fails for the y component: with origin \<open>(1, 1)\<close>, rotation 0 and
  \<open>k = 2\<close>, the point \<open>(3, 5)\<close> does not go to \<open>(p - o) / k = (1, 2)\<close>.
\<close>

theorem toPhysical_y_not_translated_counterexample:
  "toPhysical calibExample 3 5 \<noteq> ((3 - 1) / 2, (5 - 1) / 2)"
  by (simp add: calibExample_def toPhysical_def getRotatedCoords_def formatVal_def)

section \<open>Rejected calibrations (C6)\<close>

text \<open>
  Claim C6, as the code has it: a distance that is not a finite positive number, other
  than \<open>+Infinity\<close>, is rejected: the handler only shows its message, and every state
  variable, \<open>pixelsPerMeter\<close> among them, keeps its value.
\<close>

theorem submitCalibration_rejects:
  "\<not> (isFinite meters \<and> js_gt_zero meters) \<Longrightarrow> meters \<noteq> PosInf \<Longrightarrow>
   submitCalibration meters st = Inr (st\<lparr> alerts := alerts st @ [''Please enter a valid number''] \<rparr>)"
  by (cases meters) (auto simp: submitCalibration_def)

text \<open>The theorem at \<open>NaN\<close>, \<open>0\<close> and \<open>-Infinity\<close>.\<close>

theorem submitCalibration_rejects_witness:
  "submitCalibration NaN calibStart = Inr (calibStart\<lparr> alerts := [''Please enter a valid number''] \<rparr>) \<and>
   submitCalibration (Fin 0) calibStart = Inr (calibStart\<lparr> alerts := [''Please enter a valid number''] \<rparr>) \<and>
   submitCalibration NegInf calibStart = Inr (calibStart\<lparr> alerts := [''Please enter a valid number''] \<rparr>) \<and>
   cs_pixelsPerMeter (calibStart\<lparr> alerts := [''Please enter a valid number''] \<rparr>) = None"
  using submitCalibration_rejects [of NaN calibStart] submitCalibration_rejects [of "Fin 0" calibStart]
    submitCalibration_rejects [of NegInf calibStart]
  by (simp add: calibStart_def)

text \<open>
  C6 as stated fails at \<open>+Infinity\<close>, which is not finite and passes the guard
  \<open>!isNaN(meters) && meters > 0\<close>: \<open>pixelsPerMeter\<close> goes from unset to \<open>5 / Infinity = 0\<close>.
\<close>

theorem submitCalibration_infinity_counterexample:
  "\<not> isFinite PosInf \<and>
   submitCalibration PosInf calibStart =
     Inr (calibStart\<lparr> cs_pixelsPerMeter := Some (Fin 0), isCalibrating := False,
                       showInputModal := False, isScaleVisible := True \<rparr>) \<and>
   cs_pixelsPerMeter calibStart = None"
  by (simp add: submitCalibration_def calibStart_def)

section \<open>The tick loop and the step\<close>

text \<open>When the sum \<open>t + niceStep\<close> is \<open>t\<close> again, the loop does not end.\<close>

lemma ticksLoop_absorbed:
  assumes "dadd t s = t" and "t \<le> hi"
  shows "ticksLoop dadd t hi s acc = None"
proof -
  have "\<not> (f u st = u \<and> u \<le> l)" if a: "ticksLoop f u l st a = Some r" for f u l st a r
    by (rule ticksLoop.raw_induct [where P = "\<lambda>f u l st a r. \<not> (f u st = u \<and> u \<le> l)", OF _ a])
       (auto split: if_splits)
  then show ?thesis using assms by (cases "ticksLoop dadd t hi s acc") auto
qed

text \<open>Rounding to \<open>f\<close> decimals moves a number by at most half a unit of the last decimal.\<close>

lemma toFixed_error: "\<bar>toFixed f v - v\<bar> \<le> 1 / (2 * 10 ^ f)"
proof (cases "\<bar>v\<bar> \<ge> 10 ^ 21")
  case True
  then show ?thesis by (simp add: toFixed_def)
next
  case False
  define a where "a = \<bar>v\<bar> * 10 ^ f"
  define n where "n = \<lfloor>a + 1 / 2\<rfloor>"
  have n: "of_int n \<le> a + 1 / 2" "a + 1 / 2 < of_int n + 1" unfolding n_def by linarith+
  have "\<bar>of_int n - a\<bar> \<le> 1 / 2" using n by linarith
  then have "\<bar>of_int n - a\<bar> / 10 ^ f \<le> (1 / 2) / 10 ^ f" by (intro divide_right_mono) simp_all
  moreover have "\<bar>of_int n - a\<bar> / 10 ^ f = \<bar>of_int n / 10 ^ f - \<bar>v\<bar>\<bar>"
  proof -
    have "of_int n / 10 ^ f - \<bar>v\<bar> = (of_int n - a) / 10 ^ f" by (simp add: a_def diff_divide_distrib)
    then show ?thesis by (simp add: abs_divide)
  qed
  ultimately have e: "\<bar>of_int n / 10 ^ f - \<bar>v\<bar>\<bar> \<le> 1 / (2 * 10 ^ f)" by simp
  have tf: "toFixed f v = (if v < 0 then - 1 else 1) * (of_int n / 10 ^ f)"
    using False by (simp only: toFixed_def n_def a_def if_False)
  show ?thesis
  proof (cases "v < 0")
    case True
    then have "toFixed f v - v = - (of_int n / 10 ^ f - \<bar>v\<bar>)" unfolding tf by simp
    then show ?thesis using e by simp
  next
    case False
    then have "toFixed f v - v = of_int n / 10 ^ f - \<bar>v\<bar>" unfolding tf by simp
    then show ?thesis using e by simp
  qed
qed

text \<open>
  When every sum of the loop is within \<open>d\<close> of the exact sum and \<open>d\<close> is small against the
  step, the loop from \<open>base\<close> up to \<open>base + K * s + s / 100\<close> ends after \<open>K + 1\<close> rounds, and
  round \<open>j\<close> pushes the rounded value of a number within \<open>j * d\<close> of \<open>base + j * s\<close>.
\<close>

lemma ticksLoop_rounded:
  fixes s d base :: real and K :: nat
  assumes s: "0 < s" and d: "0 \<le> d" "110000 * d \<le> s" and K: "K \<le> 10"
    and add: "\<And>t. base - s \<le> t \<Longrightarrow> t \<le> base + 11 * s \<Longrightarrow> \<bar>dadd t s - (t + s)\<bar> \<le> d"
  shows "m = K + 1 - i \<Longrightarrow> i \<le> K + 1 \<Longrightarrow> \<bar>t - (base + real i * s)\<bar> \<le> real i * d \<Longrightarrow>
         \<exists>ts. ticksLoop dadd t (base + real K * s + s / 100) s acc = Some (acc @ ts) \<and> length ts = m \<and>
              (\<forall>j<m. \<exists>u. \<bar>u - (base + real (i + j) * s)\<bar> \<le> real (i + j) * d \<and> ts ! j = toFixed 4 u)"
proof (induction m arbitrary: i t acc)
  case 0
  then have i: "i = K + 1" by simp
  have "real i * d \<le> 11 * d" using K d(1) i by (intro mult_right_mono) simp_all
  then have "t \<ge> base + real i * s - 11 * d" using "0.prems"(3) by linarith
  moreover have "real i * s = real K * s + s" by (simp add: i algebra_simps)
  ultimately have "\<not> t \<le> base + real K * s + s / 100" using d(2) s by linarith
  then show ?case by (subst ticksLoop.simps) simp
next
  case (Suc m)
  then have i: "i \<le> K" "m = K + 1 - Suc i" "Suc i \<le> K + 1" by simp_all
  have id: "real i * d \<le> 10 * d" using K d(1) i(1) by (intro mult_right_mono) simp_all
  have isl: "real i * s \<le> real K * s" using i(1) s by (intro mult_right_mono) simp_all
  have i0: "0 \<le> real i * s" using s by simp
  have iK: "real i * s \<le> 10 * s" using K i(1) s by (intro mult_right_mono) simp_all
  have le: "t \<le> base + real K * s + s / 100" using Suc.prems(3) id isl d(2) by linarith
  have lo: "base - s \<le> t" using Suc.prems(3) id i0 d(2) s by linarith
  have hi: "t \<le> base + 11 * s" using Suc.prems(3) id iK d(2) s by linarith
  have "\<bar>dadd t s - (t + s)\<bar> \<le> d" using lo hi by (rule add)
  moreover have "real (Suc i) * s = real i * s + s" "real (Suc i) * d = real i * d + d"
    by (simp_all add: algebra_simps)
  ultimately have nxt: "\<bar>dadd t s - (base + real (Suc i) * s)\<bar> \<le> real (Suc i) * d"
    using Suc.prems(3) by linarith
  obtain ts where ts: "ticksLoop dadd (dadd t s) (base + real K * s + s / 100) s (acc @ [toFixed 4 t])
        = Some ((acc @ [toFixed 4 t]) @ ts)" "length ts = m"
      "\<forall>j<m. \<exists>u. \<bar>u - (base + real (Suc i + j) * s)\<bar> \<le> real (Suc i + j) * d \<and> ts ! j = toFixed 4 u"
    using Suc.IH [OF i(2) i(3) nxt] by blast
  have run: "ticksLoop dadd t (base + real K * s + s / 100) s acc = Some (acc @ toFixed 4 t # ts)"
    using le ts(1) by (subst ticksLoop.simps) simp
  have "\<exists>u. \<bar>u - (base + real (i + j) * s)\<bar> \<le> real (i + j) * d \<and> (toFixed 4 t # ts) ! j = toFixed 4 u"
    if "j < Suc m" for j
  proof (cases j)
    case 0
    then show ?thesis using Suc.prems(3) by auto
  next
    case (Suc j')
    then have "j' < m" using that by simp
    then obtain u where "\<bar>u - (base + real (Suc i + j') * s)\<bar> \<le> real (Suc i + j') * d"
      "ts ! j' = toFixed 4 u" using ts(3) by blast
    then show ?thesis using Suc by auto
  qed
  then show ?case using run ts(2) by auto
qed

text \<open>The step lies between a ninth and a quarter of the padded range.\<close>

lemma floor_log10_bounds:
  fixes r :: real assumes "0 < r"
  shows "10 powr of_int \<lfloor>log 10 r\<rfloor> \<le> r" and "r < 10 * 10 powr of_int \<lfloor>log 10 r\<rfloor>"
proof -
  have "10 powr of_int \<lfloor>log 10 r\<rfloor> \<le> r \<and> r < 10 powr (of_int \<lfloor>log 10 r\<rfloor> + 1)"
    using floor_log_eq_powr_iff [of r 10 "\<lfloor>log 10 r\<rfloor>"] assms by simp
  then show "10 powr of_int \<lfloor>log 10 r\<rfloor> \<le> r" and "r < 10 * 10 powr of_int \<lfloor>log 10 r\<rfloor>"
    by (simp_all add: powr_add)
qed

lemma snapMagStep_bounds:
  assumes "1 \<le> g" "g < 10"
  shows "0 < snapMagStep g \<and> 42 / 10 * snapMagStep g \<le> 6 * g \<and> 6 * g < 9 * snapMagStep g"
  using assms by (auto simp: snapMagStep_def)

lemma niceStep_bounds:
  fixes r :: real assumes "0 < r"
  shows "0 < snapMagStep (r / 10 powr of_int \<lfloor>log 10 r\<rfloor>) * 10 powr of_int \<lfloor>log 10 r\<rfloor>"
    and "42 / 10 * (snapMagStep (r / 10 powr of_int \<lfloor>log 10 r\<rfloor>) * 10 powr of_int \<lfloor>log 10 r\<rfloor>) \<le> 6 * r"
    and "6 * r < 9 * (snapMagStep (r / 10 powr of_int \<lfloor>log 10 r\<rfloor>) * 10 powr of_int \<lfloor>log 10 r\<rfloor>)"
proof -
  define P :: real where "P = 10 powr of_int \<lfloor>log 10 r\<rfloor>"
  define g where "g = r / P"
  have P: "0 < P" by (simp add: P_def)
  have "P \<le> r" "r < 10 * P" using floor_log10_bounds [OF assms] by (simp_all add: P_def)
  then have g: "1 \<le> g" "g < 10" using P by (simp_all add: g_def field_simps)
  have r: "r = g * P" using P by (simp add: g_def)
  note b = snapMagStep_bounds [OF g]
  have "0 < snapMagStep g * P" using b P by simp
  moreover have "42 / 10 * (snapMagStep g * P) \<le> 6 * r"
  proof -
    have "(42 / 10 * snapMagStep g) * P \<le> (6 * g) * P" using b P by (intro mult_right_mono) auto
    then show ?thesis by (simp add: r mult.assoc)
  qed
  moreover have "6 * r < 9 * (snapMagStep g * P)"
  proof -
    have "(6 * g) * P < (9 * snapMagStep g) * P" using b P by (intro mult_strict_right_mono) auto
    then show ?thesis by (simp add: r mult.assoc)
  qed
  ultimately show "0 < snapMagStep (r / 10 powr of_int \<lfloor>log 10 r\<rfloor>) * 10 powr of_int \<lfloor>log 10 r\<rfloor>"
    and "42 / 10 * (snapMagStep (r / 10 powr of_int \<lfloor>log 10 r\<rfloor>) * 10 powr of_int \<lfloor>log 10 r\<rfloor>) \<le> 6 * r"
    and "6 * r < 9 * (snapMagStep (r / 10 powr of_int \<lfloor>log 10 r\<rfloor>) * 10 powr of_int \<lfloor>log 10 r\<rfloor>)"
    unfolding g_def P_def by blast+
qed

lemma tick_interval_count:
  fixes s :: real
  assumes "0 < s" "42 / 10 * s \<le> pmax - pmin" "pmax - pmin < 9 * s"
  shows "5 \<le> \<lceil>pmax / s\<rceil> - \<lfloor>pmin / s\<rfloor>" and "\<lceil>pmax / s\<rceil> - \<lfloor>pmin / s\<rfloor> \<le> 10"
proof -
  have d: "pmax / s - pmin / s = (pmax - pmin) / s" by (simp add: diff_divide_distrib)
  have lo: "42 / 10 \<le> pmax / s - pmin / s" unfolding d using assms(1,2) by (simp add: pos_le_divide_eq)
  have up: "pmax / s - pmin / s < 9" unfolding d using assms(1,3) by (simp add: pos_divide_less_eq)
  have c: "pmax / s \<le> of_int \<lceil>pmax / s\<rceil>" "of_int \<lceil>pmax / s\<rceil> < pmax / s + 1" by linarith+
  have f: "of_int \<lfloor>pmin / s\<rfloor> \<le> pmin / s" "pmin / s - 1 < of_int \<lfloor>pmin / s\<rfloor>" by linarith+
  have "(4::real) < of_int \<lceil>pmax / s\<rceil> - of_int \<lfloor>pmin / s\<rfloor>" using lo c f by linarith
  then have "real_of_int 4 < of_int (\<lceil>pmax / s\<rceil> - \<lfloor>pmin / s\<rfloor>)" by simp
  then have "4 < \<lceil>pmax / s\<rceil> - \<lfloor>pmin / s\<rfloor>" by (simp only: of_int_less_iff)
  then show "5 \<le> \<lceil>pmax / s\<rceil> - \<lfloor>pmin / s\<rfloor>" by simp
  have "of_int \<lceil>pmax / s\<rceil> - of_int \<lfloor>pmin / s\<rfloor> < (11::real)" using up c f by linarith
  then have "of_int (\<lceil>pmax / s\<rceil> - \<lfloor>pmin / s\<rfloor>) < real_of_int 11" by simp
  then have "\<lceil>pmax / s\<rceil> - \<lfloor>pmin / s\<rfloor> < 11" by (simp only: of_int_less_iff)
  then show "\<lceil>pmax / s\<rceil> - \<lfloor>pmin / s\<rfloor> \<le> 10" by simp
qed

lemma no_overflow_below: "\<bar>v\<bar> \<le> 100000000000000000 \<Longrightarrow> \<not> overflows v"
proof -
  have "(100000000000000000::real) < 2 ^ 1024 - 2 ^ 970" by simp
  then show "\<bar>v\<bar> \<le> 100000000000000000 \<Longrightarrow> \<not> overflows v" unfolding overflows_def by linarith
qed

text \<open>
  The scale on the inputs whose sums the loop adds accurately: bounds of magnitude at most
  \<open>10^15\<close>, at least \<open>10^-9\<close> apart and at least \<open>10^-9\<close> of the larger magnitude apart.
\<close>

lemma niceScaleFinite_shape:
  fixes minValue maxValue :: real
  assumes add: "\<And>a b. \<bar>a + b\<bar> \<le> 10 ^ 17 \<Longrightarrow> \<bar>dadd a b - (a + b)\<bar> \<le> \<bar>a + b\<bar> / 2 ^ 53"
    and lt: "minValue < maxValue"
    and b1: "\<bar>minValue\<bar> \<le> 10 ^ 15" and b2: "\<bar>maxValue\<bar> \<le> 10 ^ 15"
    and wide: "max 1 (max \<bar>minValue\<bar> \<bar>maxValue\<bar>) \<le> 10 ^ 9 * (maxValue - minValue)"
  shows "\<exists>niceMin niceMax niceStep ticks K.
           niceScaleFinite dadd minValue maxValue lockZero =
             Some \<lparr> scale_min = Fin niceMin, scale_max = Fin niceMax,
                    scale_ticks = ticks, scale_step = Fin niceStep \<rparr> \<and>
           0 < niceStep \<and> niceMin \<le> minValue \<and> maxValue \<le> niceMax \<and>
           5 \<le> K \<and> K \<le> 10 \<and> length ticks = K + 1 \<and> niceMax = niceMin + real K * niceStep \<and>
           (\<forall>j<K + 1. \<bar>ticks ! j - (niceMin + real j * niceStep)\<bar> \<le> 1 / 20000 + niceStep / 10000)"
proof -
  define M where "M = max \<bar>minValue\<bar> \<bar>maxValue\<bar>"
  define rng where "rng = maxValue - minValue"
  define padding where "padding = rng * 0.05"
  define pmin where "pmin = (if lockZero \<and> minValue \<ge> 0 then 0 else minValue - padding)"
  define pmax where "pmax = maxValue + padding"
  define r where "r = (pmax - pmin) / 6"
  define s where "s = snapMagStep (r / 10 powr of_int \<lfloor>log 10 r\<rfloor>) * 10 powr of_int \<lfloor>log 10 r\<rfloor>"
  define kmin where "kmin = \<lfloor>pmin / s\<rfloor>"
  define kmax where "kmax = \<lceil>pmax / s\<rceil>"
  define base where "base = of_int kmin * s"
  define top where "top = of_int kmax * s"
  define K where "K = nat (kmax - kmin)"
  define d where "d = (\<bar>base\<bar> + 12 * s) / 2 ^ 53"
  have M: "\<bar>minValue\<bar> \<le> M" "\<bar>maxValue\<bar> \<le> M" "M \<le> 1000000000000000" "0 \<le> M"
    using b1 b2 by (simp_all add: M_def)
  have rng: "0 < rng" "rng \<le> 2 * M" "rng \<noteq> 0" using lt M(1,2) by (simp_all add: rng_def)
  have w: "1 \<le> 1000000000 * rng" "M \<le> 1000000000 * rng" using wide by (simp_all add: M_def rng_def)
  have pad: "0 < padding" "padding = rng / 20" using rng(1) by (simp_all add: padding_def)
  have pmin: "pmin \<le> minValue" "- (11 / 10 * M) \<le> pmin"
    using pad rng(2) M(1,4) by (auto simp: pmin_def)
  have pmax: "maxValue < pmax" "pmax \<le> 11 / 10 * M" using pad rng(2) M(2) by (simp_all add: pmax_def)
  have pr: "rng < pmax - pmin" using pad by (auto simp: pmin_def pmax_def rng_def)
  have r: "0 < r" using pr rng(1) by (simp add: r_def)
  have s: "0 < s" "42 / 10 * s \<le> pmax - pmin" "pmax - pmin < 9 * s"
    using niceStep_bounds [OF r] by (simp_all add: s_def r_def)
  have sM: "M < 9000000000 * s" "1 < 9000000000 * s" "s \<le> M"
    using s(2,3) pr w pmin(2) pmax(2) M(4) by linarith+
  have k: "5 \<le> kmax - kmin" "kmax - kmin \<le> 10"
    using tick_interval_count [OF s] by (simp_all add: kmin_def kmax_def)
  have K: "5 \<le> K" "K \<le> 10" "real K = of_int kmax - of_int kmin" using k by (simp_all add: K_def)
  have base: "base \<le> pmin" "pmin - s < base"
  proof -
    have "of_int kmin \<le> pmin / s" "pmin / s - 1 < of_int kmin" unfolding kmin_def by linarith+
    then show "base \<le> pmin" "pmin - s < base" using s(1) by (simp_all add: base_def field_simps)
  qed
  have top: "pmax \<le> top" "top < pmax + s"
  proof -
    have "pmax / s \<le> of_int kmax" "of_int kmax < pmax / s + 1" unfolding kmax_def by linarith+
    then show "pmax \<le> top" "top < pmax + s" using s(1) by (simp_all add: top_def field_simps)
  qed
  have topK: "top = base + real K * s" by (simp add: top_def base_def K(3) algebra_simps)
  have ab: "\<bar>base\<bar> \<le> 11 / 10 * M + s" using base pmin pmax lt by linarith
  have d0: "0 \<le> d" using s(1) by (simp add: d_def)
  have d1: "110000 * d \<le> s"
  proof -
    have "\<bar>base\<bar> + 12 * s \<le> 9900000013 * s" using ab sM(1) by linarith
    also have "\<dots> \<le> 2 ^ 53 / 110000 * s" using s(1) by (intro mult_right_mono) simp_all
    finally show ?thesis by (simp add: d_def field_simps)
  qed
  have step: "\<bar>dadd t s - (t + s)\<bar> \<le> d" if "base - s \<le> t" "t \<le> base + 11 * s" for t
  proof -
    have a: "\<bar>t + s\<bar> \<le> \<bar>base\<bar> + 12 * s" using that s(1) by linarith
    also have "\<dots> \<le> 100000000000000000" using ab sM(3) M(3) by linarith
    finally have "\<bar>t + s\<bar> \<le> 10 ^ 17" by simp
    then have "\<bar>dadd t s - (t + s)\<bar> \<le> \<bar>t + s\<bar> / 2 ^ 53" by (rule add)
    also have "\<dots> \<le> d" unfolding d_def using a by (intro divide_right_mono) simp_all
    finally show ?thesis .
  qed
  have "\<exists>ts. ticksLoop dadd base (base + real K * s + s / 100) s [] = Some ([] @ ts) \<and> length ts = K + 1 \<and>
          (\<forall>j<K + 1. \<exists>u. \<bar>u - (base + real (0 + j) * s)\<bar> \<le> real (0 + j) * d \<and> ts ! j = toFixed 4 u)"
    by (rule ticksLoop_rounded [where dadd = dadd and base = base and s = s and d = d and K = K,
          OF s(1) d0 d1 K(2) step]) simp_all
  then obtain ts where ts: "ticksLoop dadd base (top + s / 100) s [] = Some ts" "length ts = K + 1"
      "\<And>j. j < K + 1 \<Longrightarrow> \<exists>u. \<bar>u - (base + real j * s)\<bar> \<le> real j * d \<and> ts ! j = toFixed 4 u"
    unfolding topK by auto
  have near: "\<bar>ts ! j - (base + real j * s)\<bar> \<le> 1 / 20000 + s / 10000" if jlt: "j < K + 1" for j
  proof -
    obtain u where u: "\<bar>u - (base + real j * s)\<bar> \<le> real j * d" "ts ! j = toFixed 4 u"
      using ts(3) [OF jlt] by blast
    have "real j * d \<le> 11 * d" using jlt K(2) d0 by (intro mult_right_mono) simp_all
    moreover have "\<bar>toFixed 4 u - u\<bar> \<le> 1 / 20000" using toFixed_error [of 4 u] by simp
    ultimately show ?thesis using u d1 by linarith
  qed
  have o1: "\<not> overflows rng" using rng M by (intro no_overflow_below) linarith
  have o2: "\<not> overflows pmin" using pmin pmax lt M by (intro no_overflow_below) linarith
  have o3: "\<not> overflows pmax" using pmin pmax lt M by (intro no_overflow_below) linarith
  have o4: "\<not> overflows (pmax - pmin)" using pmin pmax pr rng(1) M by (intro no_overflow_below) linarith
  have o5: "\<not> overflows base" using ab sM(3) M by (intro no_overflow_below) linarith
  have o6: "\<not> overflows top" using top pmax pmin lt sM(3) M by (intro no_overflow_below) linarith
  have o7: "\<not> overflows (top + s / 100)"
    using top pmax pmin lt sM(3) s(1) M by (intro no_overflow_below) linarith
  have r6: "0 < (pmax - pmin) / 6" using r by (simp add: r_def)
  have "niceScaleFinite dadd minValue maxValue lockZero =
      Some \<lparr> scale_min = Fin base, scale_max = Fin top, scale_ticks = ts, scale_step = Fin s \<rparr>"
    unfolding niceScaleFinite_def Let_def rng_def [symmetric] if_not_P [OF rng(3)]
      padding_def [symmetric] pmin_def [symmetric] pmax_def [symmetric] if_P [OF r6] r_def [symmetric]
      s_def [symmetric] kmin_def [symmetric] kmax_def [symmetric] base_def [symmetric] top_def [symmetric]
    using o1 o2 o3 o4 o5 o6 o7 ts(1) r by simp
  then show ?thesis using s(1) base(1) pmin(1) top(1) pmax(1) K(1,2) ts(2) topK near
    by (intro exI [of _ base] exI [of _ top] exI [of _ s] exI [of _ ts] exI [of _ K]) auto
qed

text \<open>A number closer than half a unit of the last decimal to \<open>z / 10^f\<close> is rounded to it.\<close>

lemma toFixed_near_grid:
  assumes near: "\<bar>v - of_int z / 10 ^ f\<bar> < 1 / (2 * 10 ^ f)" and small: "\<bar>v\<bar> < 10 ^ 21"
  shows "toFixed f v = of_int z / 10 ^ f"
proof -
  define a where "a = v * 10 ^ f"
  have "\<bar>v - of_int z / 10 ^ f\<bar> * 10 ^ f < 1 / (2 * 10 ^ f) * 10 ^ f"
    using near by (intro mult_strict_right_mono) simp_all
  moreover have "\<bar>v - of_int z / 10 ^ f\<bar> * 10 ^ f = \<bar>a - of_int z\<bar>"
  proof -
    have "\<bar>v - of_int z / 10 ^ f\<bar> * 10 ^ f = \<bar>(v - of_int z / 10 ^ f) * 10 ^ f\<bar>"
      by (simp add: abs_mult)
    also have "(v - of_int z / 10 ^ f) * 10 ^ f = a - of_int z" by (simp add: a_def algebra_simps)
    finally show ?thesis .
  qed
  ultimately have a: "\<bar>a - of_int z\<bar> < 1 / 2" by simp
  have av: "\<bar>v\<bar> * 10 ^ f = \<bar>a\<bar>" by (simp add: a_def abs_mult)
  have sg: "v < 0 \<longleftrightarrow> a < 0" by (simp add: a_def mult_less_0_iff)
  have tf: "toFixed f v = (if a < 0 then - 1 else 1) * (of_int \<lfloor>\<bar>a\<bar> + 1 / 2\<rfloor> / 10 ^ f)"
    using small by (simp add: toFixed_def av sg)
  have a2: "a - of_int z < 1 / 2" "of_int z - a < 1 / 2" using a by linarith+
  consider "0 < z" | "z = 0" | "z < 0" by linarith
  then show ?thesis
  proof cases
    case 1
    then have "1 \<le> real_of_int z" by simp
    then have p: "0 < a" using a2 by linarith
    then have "of_int z \<le> \<bar>a\<bar> + 1 / 2" "\<bar>a\<bar> + 1 / 2 < of_int z + 1" using a2 by linarith+
    then have "\<lfloor>\<bar>a\<bar> + 1 / 2\<rfloor> = z" by (rule floor_unique)
    then show ?thesis using p by (simp add: tf)
  next
    case 2
    then have "of_int 0 \<le> \<bar>a\<bar> + 1 / 2" "\<bar>a\<bar> + 1 / 2 < of_int 0 + 1" using a2 by simp_all
    then have "\<lfloor>\<bar>a\<bar> + 1 / 2\<rfloor> = 0" by (rule floor_unique)
    then show ?thesis using 2 by (simp add: tf)
  next
    case 3
    then have "real_of_int z \<le> - 1" by simp
    then have p: "a < 0" using a2 by linarith
    then have "of_int (- z) \<le> \<bar>a\<bar> + 1 / 2" "\<bar>a\<bar> + 1 / 2 < of_int (- z) + 1" using a2 by simp_all
    then have "\<lfloor>\<bar>a\<bar> + 1 / 2\<rfloor> = - z" by (rule floor_unique)
    then show ?thesis using p by (simp add: tf)
  qed
qed

lemma ticksLoop_grid:
  fixes g :: "nat \<Rightarrow> int" and s base d :: real
  assumes add: "\<And>a b. \<bar>a + b\<bar> \<le> 10 ^ 17 \<Longrightarrow> \<bar>dadd a b - (a + b)\<bar> \<le> \<bar>a + b\<bar> / 2 ^ 53"
    and s: "0 < s" and K: "K \<le> 10"
    and sz: "\<bar>base\<bar> + 12 * s \<le> 10 ^ 17"
    and d: "d = (\<bar>base\<bar> + 12 * s) / 2 ^ 53" "110000 * d \<le> s"
    and grid: "\<And>j. j < K + 1 \<Longrightarrow> \<bar>base + real j * s - of_int (g j) / 10 ^ 4\<bar> + 11 * d < 1 / 20000"
  shows "ticksLoop dadd base (base + real K * s + s / 100) s [] =
           Some (map (\<lambda>j. of_int (g j) / 10 ^ 4) [0 ..< K + 1])"
proof -
  have d0: "0 \<le> d" using s by (simp add: d(1))
  have step: "\<bar>dadd t s - (t + s)\<bar> \<le> d" if "base - s \<le> t" "t \<le> base + 11 * s" for t
  proof -
    have a: "\<bar>t + s\<bar> \<le> \<bar>base\<bar> + 12 * s" using that s by linarith
    then have "\<bar>t + s\<bar> \<le> 10 ^ 17" using sz by linarith
    then have "\<bar>dadd t s - (t + s)\<bar> \<le> \<bar>t + s\<bar> / 2 ^ 53" by (rule add)
    also have "\<dots> \<le> d" unfolding d(1) using a by (intro divide_right_mono) simp_all
    finally show ?thesis .
  qed
  have "\<exists>ts. ticksLoop dadd base (base + real K * s + s / 100) s [] = Some ([] @ ts) \<and> length ts = K + 1 \<and>
          (\<forall>j<K + 1. \<exists>u. \<bar>u - (base + real (0 + j) * s)\<bar> \<le> real (0 + j) * d \<and> ts ! j = toFixed 4 u)"
    by (rule ticksLoop_rounded [where dadd = dadd and base = base and s = s and d = d and K = K,
          OF s d0 d(2) K step]) simp_all
  then obtain ts where ts: "ticksLoop dadd base (base + real K * s + s / 100) s [] = Some ts"
      "length ts = K + 1"
      "\<And>j. j < K + 1 \<Longrightarrow> \<exists>u. \<bar>u - (base + real j * s)\<bar> \<le> real j * d \<and> ts ! j = toFixed 4 u"
    by auto
  have "ts ! j = of_int (g j) / 10 ^ 4" if jlt: "j < K + 1" for j
  proof -
    obtain u where u: "\<bar>u - (base + real j * s)\<bar> \<le> real j * d" "ts ! j = toFixed 4 u"
      using ts(3) [OF jlt] by blast
    have jd: "real j * d \<le> 11 * d" using jlt K d0 by (intro mult_right_mono) simp_all
    have js: "0 \<le> real j * s" "real j * s \<le> 11 * s" using jlt K s by simp_all
    have "\<bar>u - of_int (g j) / 10 ^ 4\<bar> < 1 / 20000" using u(1) jd grid [OF jlt] by linarith
    then have n: "\<bar>u - of_int (g j) / 10 ^ 4\<bar> < 1 / (2 * 10 ^ 4)" by simp
    have "\<bar>u\<bar> \<le> \<bar>base\<bar> + 11 * s + 11 * d" using u(1) jd js by linarith
    moreover have "(10::real) ^ 17 + 10 ^ 17 < 10 ^ 21" by simp
    ultimately have "\<bar>u\<bar> < 10 ^ 21" using sz d(2) s by linarith
    then show ?thesis unfolding u(2) using n by (intro toFixed_near_grid)
  qed
  then have "ts = map (\<lambda>j. of_int (g j) / 10 ^ 4) [0 ..< K + 1]"
    using ts(2) by (intro nth_equalityI) (simp_all del: upt_Suc)
  then show ?thesis using ts(1) by simp
qed

text \<open>The scale of the range from 0 to 0.0001, whatever the rounding of the sums.\<close>

lemma powr10_m5: "(10::real) powr - 5 = 1 / 100000"
  by (simp add: powr_minus_divide)

lemma powr10_m4: "(10::real) powr - 4 = 1 / 10000"
  by (simp add: powr_minus_divide)

lemma floor_log10_tiny: "\<lfloor>log 10 (11 / 600000 :: real)\<rfloor> = - 5"
proof -
  have "(10::real) powr of_int (- 5) \<le> 11 / 600000 \<and> (11 / 600000 :: real) < 10 powr of_int (- 5 + 1)"
    by (simp add: powr10_m5 powr10_m4)
  then show ?thesis
    using floor_log_eq_powr_iff [of "11 / 600000 :: real" 10 "- 5"] by simp
qed

lemma niceScaleFinite_tiny:
  assumes add: "\<And>a b. \<bar>a + b\<bar> \<le> 10 ^ 17 \<Longrightarrow> \<bar>dadd a b - (a + b)\<bar> \<le> \<bar>a + b\<bar> / 2 ^ 53"
  shows "niceScaleFinite dadd 0 0.0001 False = Some tinyRangeScale"
proof -
  define g :: "nat \<Rightarrow> int" where "g j = (if j < 4 then 0 else 1)" for j
  define d :: real where "d = (\<bar>- (1 / 50000)\<bar> + 12 * (1 / 50000)) / 2 ^ 53"
  have up8: "[0 ..< 8] = [0, 1, 2, 3, 4, 5, 6, 7]" by (simp add: upt_rec)
  have grid: "\<bar>- (1 / 50000) + real j * (1 / 50000) - of_int (g j) / 10 ^ 4\<bar> + 11 * d < 1 / 20000"
    if "j < 7 + 1" for j
  proof -
    have "j = 0 \<or> j = 1 \<or> j = 2 \<or> j = 3 \<or> j = 4 \<or> j = 5 \<or> j = 6 \<or> j = 7" using that by arith
    then show ?thesis by (elim disjE) (simp_all add: g_def d_def)
  qed
  have "ticksLoop dadd (- (1 / 50000)) (- (1 / 50000) + real 7 * (1 / 50000) + (1 / 50000) / 100) (1 / 50000) [] =
      Some (map (\<lambda>j. of_int (g j) / 10 ^ 4) [0 ..< 7 + 1])"
    by (rule ticksLoop_grid [OF add _ _ _ d_def _ grid]) (simp_all add: d_def)
  then have loop: "ticksLoop dadd (- (1 / 50000)) (601 / 5000000) (1 / 50000) [] =
      Some [0, 0, 0, 0, 0.0001, 0.0001, 0.0001, 0.0001]"
    by (simp add: up8 g_def)
  have o: "\<not> overflows (1 / 10000)" "\<not> overflows (- (1 / 200000))" "\<not> overflows (21 / 200000)"
    "\<not> overflows (11 / 100000)" "\<not> overflows (- (1 / 50000))" "\<not> overflows (3 / 25000)"
    "\<not> overflows (601 / 5000000)"
    by (rule no_overflow_below, simp)+
  show ?thesis
    unfolding niceScaleFinite_def Let_def
    by (simp add: floor_log10_tiny powr10_m5 snapMagStep_def loop o tinyRangeScale_def)
qed

text \<open>A scale with eleven ticks, whatever the rounding of the sums.\<close>

lemma floor_log10_wide: "\<lfloor>log 10 (4499 / 3000 :: real)\<rfloor> = 0"
proof -
  have "(10::real) powr of_int 0 \<le> 4499 / 3000 \<and> (4499 / 3000 :: real) < 10 powr of_int (0 + 1)"
    by simp
  then show ?thesis
    using floor_log_eq_powr_iff [of "4499 / 3000 :: real" 10 0] by simp
qed

lemma calculateNiceScale_eleven_ticks:
  assumes add: "\<And>a b. \<bar>a + b\<bar> \<le> 10 ^ 17 \<Longrightarrow> \<bar>dadd a b - (a + b)\<bar> \<le> \<bar>a + b\<bar> / 2 ^ 53"
  shows "calculateNiceScale dadd (Fin 0.909) (Fin 9.089) False =
     Some \<lparr> scale_min = Fin 0, scale_max = Fin 10,
            scale_ticks = [0, 1, 2, 3, 4, 5, 6, 7, 8, 9, 10], scale_step = Fin 1 \<rparr>"
proof -
  define g :: "nat \<Rightarrow> int" where "g j = 10000 * int j" for j
  define d :: real where "d = (\<bar>0\<bar> + 12 * 1) / 2 ^ 53"
  have up11: "[0 ..< 11] = [0, 1, 2, 3, 4, 5, 6, 7, 8, 9, 10]" by (simp add: upt_rec)
  have grid: "\<bar>0 + real j * 1 - of_int (g j) / 10 ^ 4\<bar> + 11 * d < 1 / 20000" if "j < 10 + 1" for j
    by (simp add: g_def d_def)
  have "ticksLoop dadd 0 (0 + real 10 * 1 + 1 / 100) 1 [] =
      Some (map (\<lambda>j. of_int (g j) / 10 ^ 4) [0 ..< 10 + 1])"
    by (rule ticksLoop_grid [OF add _ _ _ d_def _ grid]) (simp_all add: d_def)
  then have loop: "ticksLoop dadd 0 (1001 / 100) 1 [] = Some [0, 1, 2, 3, 4, 5, 6, 7, 8, 9, 10]"
    by (simp add: up11 g_def)
  have o: "\<not> overflows (818 / 100)" "\<not> overflows (1 / 2)" "\<not> overflows (9498 / 1000)"
    "\<not> overflows (8998 / 1000)" "\<not> overflows 0" "\<not> overflows 10" "\<not> overflows (1001 / 100)"
    by (rule no_overflow_below, simp)+
  show ?thesis
    unfolding calculateNiceScale_def niceScaleFinite_def Let_def
    using o by (simp add: floor_log10_wide snapMagStep_def loop)
qed

text \<open>
  Opposite bounds near the largest double: the range overflows, both bounds of the scale
  are \<open>NaN\<close> and there is no tick.
\<close>

lemma calculateNiceScale_overflow:
  "calculateNiceScale dadd (Fin (- (10 ^ 308))) (Fin (10 ^ 308)) lockZero =
     Some \<lparr> scale_min = NaN, scale_max = NaN, scale_ticks = [], scale_step = PosInf \<rparr>"
proof -
  have "(2::real) ^ 1024 - 2 ^ 970 \<le> 2 * 10 ^ 308" by simp
  then have "overflows (10 ^ 308 - - (10 ^ 308))" by (simp add: overflows_def)
  then show ?thesis
    unfolding calculateNiceScale_def niceScaleFinite_def Let_def by (simp split: if_splits)
qed

section \<open>Containment and ticks of the nice scale (C7)\<close>

text \<open>
  Claim C7, as the code has it. The sum of two doubles is the parameter \<open>dadd\<close>, of which
  only the accuracy of a rounded sum is assumed: it is within \<open>|a + b| / 2^53\<close> of \<open>a + b\<close>
  as long as \<open>|a + b| \<le> 10^17\<close>. For finite \<open>min < max\<close> of magnitude at most \<open>10^15\<close> that
  are at least \<open>10^-9\<close> apart, and at least \<open>10^-9\<close> of the larger magnitude apart, the loop
  ends and the scale has \<open>scale.min \<le> min\<close>, \<open>scale.max \<ge> max\<close> and a positive step; it has
  between 6 and 11 ticks; \<open>scale.max\<close> is \<open>scale.min\<close> plus one step for each tick after the
  first, up to a ten-thousandth of a step; tick \<open>i\<close> is within \<open>0.00005 + step / 10000\<close>
  of \<open>scale.min + i * step\<close>, so that consecutive ticks differ by the step up to
  \<open>0.0001 + step / 5000\<close>. Outside these bounds the function behaves otherwise: the loop
  does not end when a sum is absorbed (\<open>ticksLoop_absorbed\<close>), and there is no tick when
  the range overflows (\<open>calculateNiceScale_overflow\<close>).
\<close>

theorem calculateNiceScale_contains:
  fixes minValue maxValue :: real
  assumes "\<And>a b. \<bar>a + b\<bar> \<le> 10 ^ 17 \<Longrightarrow> \<bar>dadd a b - (a + b)\<bar> \<le> \<bar>a + b\<bar> / 2 ^ 53"
    and "minValue < maxValue"
    and "\<bar>minValue\<bar> \<le> 10 ^ 15" and "\<bar>maxValue\<bar> \<le> 10 ^ 15"
    and "max 1 (max \<bar>minValue\<bar> \<bar>maxValue\<bar>) \<le> 10 ^ 9 * (maxValue - minValue)"
  shows "\<exists>niceMin niceMax niceStep ticks.
           calculateNiceScale dadd (Fin minValue) (Fin maxValue) lockZero =
             Some \<lparr> scale_min = Fin niceMin, scale_max = Fin niceMax,
                    scale_ticks = ticks, scale_step = Fin niceStep \<rparr> \<and>
           niceMin \<le> minValue \<and> maxValue \<le> niceMax \<and> 0 < niceStep \<and>
           6 \<le> length ticks \<and> length ticks \<le> 11 \<and>
           \<bar>niceMax - (niceMin + real (length ticks - 1) * niceStep)\<bar> \<le> niceStep / 10000 \<and>
           (\<forall>i < length ticks.
              \<bar>ticks ! i - (niceMin + real i * niceStep)\<bar> \<le> 1 / 20000 + niceStep / 10000) \<and>
           (\<forall>i. Suc i < length ticks \<longrightarrow>
              \<bar>ticks ! Suc i - ticks ! i - niceStep\<bar> \<le> 1 / 10000 + niceStep / 5000)"
proof -
  obtain niceMin niceMax s ticks K where
    eq: "niceScaleFinite dadd minValue maxValue lockZero =
           Some \<lparr> scale_min = Fin niceMin, scale_max = Fin niceMax,
                  scale_ticks = ticks, scale_step = Fin s \<rparr>"
    and s: "0 < s" and lo: "niceMin \<le> minValue" and up: "maxValue \<le> niceMax"
    and K: "5 \<le> K" "K \<le> 10" and len: "length ticks = K + 1"
    and top: "niceMax = niceMin + real K * s"
    and near: "\<And>j. j < K + 1 \<Longrightarrow> \<bar>ticks ! j - (niceMin + real j * s)\<bar> \<le> 1 / 20000 + s / 10000"
    using niceScaleFinite_shape [OF assms, of lockZero] by blast
  have c: "calculateNiceScale dadd (Fin minValue) (Fin maxValue) lockZero =
      Some \<lparr> scale_min = Fin niceMin, scale_max = Fin niceMax, scale_ticks = ticks, scale_step = Fin s \<rparr>"
    using assms(2) eq by (simp add: calculateNiceScale_def)
  have l6: "6 \<le> length ticks" using K(1) len by linarith
  have l11: "length ticks \<le> 11" using K(2) len by linarith
  have t: "\<bar>niceMax - (niceMin + real (length ticks - 1) * s)\<bar> \<le> s / 10000"
    using s by (simp add: top len)
  have n: "\<bar>ticks ! i - (niceMin + real i * s)\<bar> \<le> 1 / 20000 + s / 10000" if "i < length ticks" for i
    using near [of i] that len by simp
  have gap: "\<bar>ticks ! Suc i - ticks ! i - s\<bar> \<le> 1 / 10000 + s / 5000" if i: "Suc i < length ticks" for i
  proof -
    have "\<bar>ticks ! Suc i - (niceMin + real (Suc i) * s)\<bar> \<le> 1 / 20000 + s / 10000" using i by (rule n)
    moreover have "\<bar>ticks ! i - (niceMin + real i * s)\<bar> \<le> 1 / 20000 + s / 10000" using i by (intro n) simp
    moreover have "real (Suc i) * s = real i * s + s" by (simp add: algebra_simps)
    ultimately show ?thesis by linarith
  qed
  show ?thesis
    using c lo up s l6 l11 t n gap by blast
qed

text \<open>The theorem at the range from 0 to 10, with the exact sum for the addition.\<close>

theorem calculateNiceScale_contains_witness:
  "(\<forall>a b :: real. \<bar>a + b - (a + b)\<bar> \<le> \<bar>a + b\<bar> / 2 ^ 53) \<and>
   (0::real) < 10 \<and> \<bar>0::real\<bar> \<le> 10 ^ 15 \<and> \<bar>10::real\<bar> \<le> 10 ^ 15 \<and>
   max 1 (max \<bar>0::real\<bar> \<bar>10\<bar>) \<le> 10 ^ 9 * (10 - 0) \<and>
   (\<exists>niceMin niceMax niceStep ticks.
      calculateNiceScale (+) (Fin 0) (Fin 10) False =
        Some \<lparr> scale_min = Fin niceMin, scale_max = Fin niceMax,
               scale_ticks = ticks, scale_step = Fin niceStep \<rparr> \<and>
      niceMin \<le> 0 \<and> 10 \<le> niceMax \<and> 0 < niceStep \<and> 6 \<le> length ticks \<and> length ticks \<le> 11 \<and>
      \<bar>niceMax - (niceMin + real (length ticks - 1) * niceStep)\<bar> \<le> niceStep / 10000 \<and>
      (\<forall>i < length ticks.
         \<bar>ticks ! i - (niceMin + real i * niceStep)\<bar> \<le> 1 / 20000 + niceStep / 10000) \<and>
      (\<forall>i. Suc i < length ticks \<longrightarrow>
         \<bar>ticks ! Suc i - ticks ! i - niceStep\<bar> \<le> 1 / 10000 + niceStep / 5000))"
proof -
  have h0: "\<bar>a + b - (a + b)\<bar> \<le> \<bar>a + b\<bar> / 2 ^ 53" for a b :: real by simp
  have h1: "(0::real) < 10" by simp
  have h2: "\<bar>0::real\<bar> \<le> 10 ^ 15" by simp
  have h3: "\<bar>10::real\<bar> \<le> 10 ^ 15" by simp
  have h4: "max 1 (max \<bar>0::real\<bar> \<bar>10\<bar>) \<le> 10 ^ 9 * (10 - 0)" by simp
  show ?thesis
    using calculateNiceScale_contains [of "(+)" 0 10 False, OF h0 h1 h2 h3 h4] h0 h1 h2 h3 h4
    by blast
qed

text \<open>
  C7 as stated fails on the tick distance: for the range from 0 to 0.0001 the step is
  \<open>0.00002\<close>, and the first two ticks, rounded to four decimals, are both 0.
\<close>

theorem calculateNiceScale_tick_gap_counterexample:
  "(0::real) < 0.0001 \<and>
   max 1 (max \<bar>0::real\<bar> \<bar>0.0001\<bar>) \<le> 10 ^ 9 * (0.0001 - 0) \<and>
   calculateNiceScale (+) (Fin 0) (Fin 0.0001) False = Some tinyRangeScale \<and>
   scale_step tinyRangeScale = Fin 0.00002 \<and>
   scale_ticks tinyRangeScale ! 1 - scale_ticks tinyRangeScale ! 0 \<noteq> 0.00002"
proof -
  have "\<bar>(+) a b - (a + b)\<bar> \<le> \<bar>a + b\<bar> / 2 ^ 53" for a b :: real by simp
  then have "niceScaleFinite (+) 0 0.0001 False = Some tinyRangeScale" by (rule niceScaleFinite_tiny)
  then show ?thesis by (simp add: calculateNiceScale_def) (simp add: tinyRangeScale_def)
qed

section \<open>Back substitution and the diagonal\<close>









section \<open>The quadratic fit on a degenerate system (C3)\<close>




section \<open>The degenerate axis range (C8)\<close>

text \<open>
  Claim C8, as the code has it: when a bound is not finite or both bounds are equal,
  the result is the range \<open>[0, 10]\<close> with ticks \<open>[0, 10]\<close>, and its \<open>step\<close> field is 1.
\<close>

theorem calculateNiceScale_degenerate:
  "\<not> isFinite minValue \<or> \<not> isFinite maxValue \<or> minValue = maxValue \<Longrightarrow>
   calculateNiceScale dadd minValue maxValue lockZero =
     Some \<lparr> scale_min = Fin 0, scale_max = Fin 10, scale_ticks = [0, 10], scale_step = Fin 1 \<rparr>"
  by (cases minValue; cases maxValue) (auto simp: calculateNiceScale_def defaultScale_def)

text \<open>The theorem at equal bounds, at two infinite bounds and at a \<open>NaN\<close> bound.\<close>

theorem calculateNiceScale_degenerate_witness:
  "calculateNiceScale (+) (Fin 5) (Fin 5) True =
     Some \<lparr> scale_min = Fin 0, scale_max = Fin 10, scale_ticks = [0, 10], scale_step = Fin 1 \<rparr> \<and>
   calculateNiceScale (+) PosInf NegInf False =
     Some \<lparr> scale_min = Fin 0, scale_max = Fin 10, scale_ticks = [0, 10], scale_step = Fin 1 \<rparr> \<and>
   calculateNiceScale (+) (Fin 0) NaN False =
     Some \<lparr> scale_min = Fin 0, scale_max = Fin 10, scale_ticks = [0, 10], scale_step = Fin 1 \<rparr>"
  using calculateNiceScale_degenerate [of "Fin 5" "Fin 5" "(+)" True]
    calculateNiceScale_degenerate [of PosInf NegInf "(+)" False]
    calculateNiceScale_degenerate [of "Fin 0" NaN "(+)" False]
  by simp

text \<open>C8 as stated fails on the step: the default scale is not the one with step 10.\<close>

theorem calculateNiceScale_degenerate_step_counterexample:
  "calculateNiceScale (+) (Fin 5) (Fin 5) False \<noteq>
     Some \<lparr> scale_min = Fin 0, scale_max = Fin 10, scale_ticks = [0, 10], scale_step = Fin 10 \<rparr>"
  by (simp add: calculateNiceScale_def defaultScale_def)

section \<open>The sort in place (C9)\<close>

text \<open>
  What the computation does to the stored list: it keeps the points and puts them in
  time order; a list stored in time order stays as it is, and nothing else of the state
  changes.
\<close>

lemma computeSeries_keeps_contents: "mset (points (fst (computeSeries e))) = mset (points e)"
  by (simp add: computeSeries_def sortedPoints_def)

lemma computeSeries_sorts_points: "sorted (map pt_time (points (fst (computeSeries e))))"
  by (simp add: computeSeries_def sortedPoints_def)

lemma computeSeries_sorted_unchanged:
  "sorted (map pt_time (points e)) \<Longrightarrow> fst (computeSeries e) = e"
  by (simp add: computeSeries_def sortedPoints_sorted)

lemma computeSeries_other_fields: "fst (computeSeries e) = e\<lparr>points := sort_key pt_time (points e)\<rparr>"
  by (simp add: computeSeries_def sortedPoints_def)

text \<open>
  Claim C9 at a list stored out of time order: after the series are computed, the
  \<open>points\<close> of the state are in another order than before.
\<close>

theorem computeSeries_reorders_points:
  "points (fst (computeSeries unsortedExample)) =
     [\<lparr>pt_id = 2, pt_x = 0, pt_y = 0, pt_time = 0\<rparr>, \<lparr>pt_id = 1, pt_x = 5, pt_y = 0, pt_time = 1\<rparr>] \<and>
   points (fst (computeSeries unsortedExample)) \<noteq> points unsortedExample"
  by (simp add: computeSeries_def sortedPoints_def unsortedExample_def)

end
